theory Spec2Isabelle
  imports Main "HOL-Library.Word"
begin

section \<open>JavaScript values used by the connectors\<close>

subsection \<open>Strings\<close>

text \<open>
  A JavaScript string is a sequence of UTF-16 code units.  String literals of the source are
  written \<open>js ''...''\<close>.
\<close>

type_synonym jschar = "16 word"
type_synonym jstring = "jschar list"

definition js :: "string \<Rightarrow> jstring" where
  "js s = map of_char s"

definition colon :: jschar where
  "colon = 0x3A"

text \<open>
  \<open>String.prototype.trim\<close> strips the code points of the ECMAScript productions WhiteSpace
  and LineTerminator from both ends.
\<close>

definition is_ws :: "jschar \<Rightarrow> bool" where
  "is_ws c \<longleftrightarrow>
     c \<in> {0x9, 0xA, 0xB, 0xC, 0xD, 0x20, 0xA0, 0x1680, 0x2028, 0x2029, 0x202F, 0x205F,
          0x3000, 0xFEFF}
     \<or> (0x2000 \<le> c \<and> c \<le> 0x200A)"

definition trim :: "jstring \<Rightarrow> jstring" where
  "trim s = rev (dropWhile is_ws (rev (dropWhile is_ws s)))"

text \<open>
  \<open>indexOf\<close> with a one-character needle: the position of the first occurrence, or \<open>-1\<close>.
\<close>

fun indexOf :: "'a list \<Rightarrow> 'a \<Rightarrow> int" where
  "indexOf [] c = -1"
| "indexOf (x # xs) c =
     (if x = c then 0 else (let i = indexOf xs c in if i = -1 then -1 else i + 1))"

text \<open>
  \<open>slice\<close> of strings and arrays: a negative index counts from the end, and both indices are
  clamped to the length.  \<open>slice_from xs start\<close> is \<open>xs.slice(start)\<close>.
\<close>

definition clamp_index :: "nat \<Rightarrow> int \<Rightarrow> nat" where
  "clamp_index len i = (if i < 0 then nat (max (int len + i) 0) else min (nat i) len)"

definition slice :: "'a list \<Rightarrow> int \<Rightarrow> int \<Rightarrow> 'a list" where
  "slice xs start fin =
     (let k = clamp_index (length xs) start; e = clamp_index (length xs) fin
      in take (e - k) (drop k xs))"

definition slice_from :: "'a list \<Rightarrow> int \<Rightarrow> 'a list" where
  "slice_from xs start = drop (clamp_index (length xs) start) xs"

text \<open>A string has no leading and no trailing whitespace.\<close>

definition no_outer_ws :: "jstring \<Rightarrow> bool" where
  "no_outer_ws s \<longleftrightarrow> s = [] \<or> (\<not> is_ws (hd s) \<and> \<not> is_ws (last s))"

subsection \<open>Numbers in template literals\<close>

text \<open>Decimal rendering of an integer, as \<open>`${n}`\<close> does, and of \<open>number | null\<close>.\<close>

definition digit :: "nat \<Rightarrow> jschar" where
  "digit d = of_nat (48 + d)"

fun show_nat :: "nat \<Rightarrow> jstring" where
  "show_nat n = (if n < 10 then [digit n] else show_nat (n div 10) @ [digit (n mod 10)])"

definition show_int :: "int \<Rightarrow> jstring" where
  "show_int i = (if i < 0 then js ''-'' @ show_nat (nat (- i)) else show_nat (nat i))"

definition show_code :: "int option \<Rightarrow> jstring" where
  "show_code code = (case code of None \<Rightarrow> js ''null'' | Some c \<Rightarrow> show_int c)"

definition startsWith :: "jstring \<Rightarrow> jstring \<Rightarrow> bool" where
  "startsWith s p \<longleftrightarrow> take (length p) s = p"

subsection \<open>JSON values, objects and Maps\<close>

text \<open>
  A JavaScript number that \<open>JSON.parse\<close> can deliver is a finite double or, for a literal
  beyond the range of the doubles, an infinity.  The connectors never compute with the numbers
  of a parsed value, they only print them; so a finite number is given here by the decimal
  \<open>m \<times> 10\<^sup>e\<close> that denotes it, the one with the fewest digits that reads back as the same
  double; both zeros are \<open>Finite 0 0\<close>.  \<open>Number::toString\<close> of ECMAScript prints that
  decimal: with \<open>s\<close> the digits of \<open>m\<close> once the trailing zeros have moved to the exponent,
  \<open>k\<close> their number and \<open>n = e + k\<close>, plainly for \<open>-6 < n \<le> 21\<close> and with an exponent part
  otherwise.
\<close>

datatype jsnumber = Finite int int | Infinity bool




text \<open>
  The values \<open>JSON.parse\<close> delivers.  An object is the list of its own properties in the order
  in which they are enumerated; the keys of an object are distinct.
\<close>

datatype json =
    JNull
  | JBool bool
  | JNum jsnumber
  | JStr jstring
  | JArr "json list"
  | JObj "(jstring \<times> json) list"

text \<open>
  A JavaScript \<open>Map\<close> (and the string-keyed properties of an object) iterates in insertion
  order; \<open>set\<close> on an existing key replaces the value in place, on a new key it appends.
\<close>

definition Map_get :: "('k \<times> 'v) list \<Rightarrow> 'k \<Rightarrow> 'v option" where
  "Map_get m k = map_of m k"

fun Map_set :: "('k \<times> 'v) list \<Rightarrow> 'k \<Rightarrow> 'v \<Rightarrow> ('k \<times> 'v) list" where
  "Map_set [] k v = [(k, v)]"
| "Map_set ((k', v') # m) k v = (if k' = k then (k, v) # m else (k', v') # Map_set m k v)"

text \<open>
  The source keeps objects in its \<open>Map\<close>s and changes their fields in place.  Here the values
  of a store are records, so a change to the object held under key \<open>k\<close> is
  \<open>Map_replace m k v\<close>, with \<open>v\<close> the object after the change.  It never adds a key: the
  change to an object that the store does not hold leaves the store as it is.
\<close>

fun Map_replace :: "('k \<times> 'v) list \<Rightarrow> 'k \<Rightarrow> 'v \<Rightarrow> ('k \<times> 'v) list" where
  "Map_replace [] k v = []"
| "Map_replace ((k', v') # m) k v =
     (if k' = k then (k, v) # m else (k', v') # Map_replace m k v)"

definition Map_delete :: "('k \<times> 'v) list \<Rightarrow> 'k \<Rightarrow> ('k \<times> 'v) list" where
  "Map_delete m k = filter (\<lambda>kv. fst kv \<noteq> k) m"

definition Map_values :: "('k \<times> 'v) list \<Rightarrow> 'v list" where
  "Map_values m = map snd m"







section \<open>Answer parser (mcp-base, answer-parser.ts)\<close>

record ParsedAnswer =
  decision :: jstring
  reason :: "jstring option"

definition parseAnswer :: "jstring \<Rightarrow> ParsedAnswer" where
  "parseAnswer answer =
     (let colonIndex = indexOf answer colon
      in if colonIndex = -1 then \<lparr>decision = trim answer, reason = None\<rparr>
         else \<lparr>decision = trim (slice answer 0 colonIndex),
               reason = Some (trim (slice_from answer (colonIndex + 1)))\<rparr>)"

section \<open>Event parsers (stream-parser.ts of both connectors)\<close>















section \<open>Ring history (mcp-base, class EventBuffer)\<close>

record 'a EventBuffer =
  events :: "'a list"
  maxSize :: int

definition EventBuffer_new :: "int \<Rightarrow> 'a EventBuffer" where
  "EventBuffer_new k = \<lparr>events = [], maxSize = k\<rparr>"

definition EventBuffer_push :: "'a EventBuffer \<Rightarrow> 'a \<Rightarrow> 'a EventBuffer" where
  "EventBuffer_push b event =
     (let pushed = events b @ [event]
      in b\<lparr>events := (if int (length pushed) > maxSize b then tl pushed else pushed)\<rparr>)"

definition EventBuffer_getRecent :: "'a EventBuffer \<Rightarrow> int \<Rightarrow> 'a list" where
  "EventBuffer_getRecent b n = slice_from (events b) (- n)"

definition EventBuffer_getAll :: "'a EventBuffer \<Rightarrow> 'a list" where
  "EventBuffer_getAll b = events b"

definition EventBuffer_length :: "'a EventBuffer \<Rightarrow> nat" where
  "EventBuffer_length b = length (events b)"

definition EventBuffer_clear :: "'a EventBuffer \<Rightarrow> 'a EventBuffer" where
  "EventBuffer_clear b = b\<lparr>events := []\<rparr>"

definition EventBuffer_extract :: "'a EventBuffer \<Rightarrow> ('a \<Rightarrow> 'r option) \<Rightarrow> int \<Rightarrow> 'r list" where
  "EventBuffer_extract b fn count = slice_from (List.map_filter fn (events b)) (- count)"

text \<open>The buffer after a sequence of appends, oldest first.\<close>

definition EventBuffer_pushAll :: "'a EventBuffer \<Rightarrow> 'a list \<Rightarrow> 'a EventBuffer" where
  "EventBuffer_pushAll b es = foldl EventBuffer_push b es"

section \<open>Approval classifier and translator (claude-code-mcp, permission-manager.ts)\<close>

datatype QuestionType = tool_approval | plan_approval | question

datatype Behavior = allow | deny

record PermissionResponse =
  behavior :: Behavior
  message :: "jstring option"
  updatedInput :: "(jstring \<times> json) list option"

definition classifyRequest :: "jstring \<Rightarrow> QuestionType" where
  "classifyRequest toolName =
     (if toolName = js ''ExitPlanMode'' then plan_approval
      else if toolName = js ''AskUserQuestion'' then question
      else tool_approval)"

text \<open>\<open>parsed[0] || dflt\<close>: the first parsed answer, or the default when there is none.\<close>

definition first_or :: "ParsedAnswer list \<Rightarrow> ParsedAnswer \<Rightarrow> ParsedAnswer" where
  "first_or parsed dflt = (case parsed of [] \<Rightarrow> dflt | p # _ \<Rightarrow> p)"

definition translateAnswer ::
  "QuestionType \<Rightarrow> jstring list \<Rightarrow> (jstring \<times> json) list \<Rightarrow> PermissionResponse" where
  "translateAnswer type answers originalInput =
     (let parsed = map parseAnswer answers
      in case type of
           tool_approval \<Rightarrow>
             (let p = first_or parsed \<lparr>decision = js ''deny'', reason = None\<rparr>
              in if decision p = js ''allow''
                 then \<lparr>behavior = allow, message = None, updatedInput = None\<rparr>
                 else \<lparr>behavior = deny, message = reason p, updatedInput = None\<rparr>)
         | plan_approval \<Rightarrow>
             (let p = first_or parsed \<lparr>decision = js ''reject'', reason = None\<rparr>
              in if decision p = js ''approve''
                 then \<lparr>behavior = allow, message = None, updatedInput = Some originalInput\<rparr>
                 else \<lparr>behavior = deny, message = reason p, updatedInput = None\<rparr>)
         | question \<Rightarrow>
             \<lparr>behavior = allow, message = None,
              updatedInput = Some (Map_set originalInput (js ''answers'') (JArr (map JStr answers)))\<rparr>)"

section \<open>Sessions (mcp-base types.ts and the connectors' types.ts)\<close>

text \<open>
  The Codex connector spells the fourth status \<open>awaiting_approval\<close>; it is \<open>AWAITING_INPUT\<close>
  here.  A process handle is a number.  The fields every session has, with the type of the
  pending question left open, are those of \<open>BaseSession\<close>; of the stored spawn
  configuration only the permission mode is read by the operations below.
\<close>

datatype SessionStatus = ACTIVE | AWAITING_INPUT | DONE | ERROR | INTERRUPTED

record 'q BaseSession =
  sessionId :: jstring
  status :: SessionStatus
  process :: "nat option"
  createdAt :: int
  pendingQuestion :: "'q option"
  result :: "jstring option"
  error :: "jstring option"

text \<open>
  The question a Claude Code session waits on.  Its operator-facing prompt text is not part of
  the model; the resolver is the response handed back by the functions that call it.
\<close>

record PendingQuestion =
  questionId :: jstring
  questionType :: QuestionType
  toolName :: jstring
  toolInput :: "(jstring \<times> json) list"

datatype PermissionMode = mode_default | mode_acceptEdits | mode_plan | mode_bypassPermissions

datatype ToolUseStatus = running | completed | denied

record ToolUseEvent =
  tu_toolName :: jstring
  tu_status :: ToolUseStatus

record ContentBlock =
  cb_type :: jstring
  cb_name :: "jstring option"

record StreamInner =
  inner_type :: jstring
  delta_text :: "jstring option"
  content_block :: "ContentBlock option"

text \<open>The events as \<open>types.ts\<close> declares them (metrics left out).\<close>

datatype ParsedEvent =
    InitEvent jstring
  | StreamEvent "StreamInner option"
  | ResultEvent jstring "jstring option"
  | UnknownEvent json

record Session = "PendingQuestion BaseSession" +
  permissionMode :: "PermissionMode option"
  eventBuffer :: "ParsedEvent list"
  toolUseEvents :: "ToolUseEvent list"

record PermissionCallbackRequest =
  req_sessionId :: jstring
  req_toolName :: jstring
  req_toolInput :: "(jstring \<times> json) list"
  requestId :: jstring

text \<open>Errors thrown by the tool operations, with the text of their message.\<close>

datatype tool_error =
    UnknownSession jstring
  | NoPendingQuestion jstring
  | QuestionIdMismatch jstring jstring
  | NoActiveProcess jstring
  | MaxSessionsReached int
  | StdinNotAvailable
  | StillProcessing jstring

fun error_message :: "tool_error \<Rightarrow> jstring" where
  "error_message (UnknownSession sid) = js ''Unknown session: '' @ sid"
| "error_message (NoPendingQuestion sid) = js ''No pending question for session: '' @ sid"
| "error_message (QuestionIdMismatch expected got) =
     js ''Question ID mismatch. Expected: '' @ expected @ js '', got: '' @ got"
| "error_message (NoActiveProcess sid) = js ''Session '' @ sid @ js '' has no active process''"
| "error_message (MaxSessionsReached n) =
     js ''Maximum concurrent sessions ('' @ show_int n @ js '') reached''"
| "error_message StdinNotAvailable = js ''Process stdin is not available''"
| "error_message (StillProcessing sid) =
     js ''Session '' @ sid
     @ js '' is still processing. Wait for it to complete or interrupt it first.''"

section \<open>Permission manager (claude-code-mcp, permission-manager.ts)\<close>

definition buildQuestion ::
  "jstring \<Rightarrow> (jstring \<times> json) list \<Rightarrow> jstring \<Rightarrow> PendingQuestion" where
  "buildQuestion tool input rid =
     \<lparr>questionId = rid, questionType = classifyRequest tool, toolName = tool, toolInput = input\<rparr>"

text \<open>\<open>pendingTimeouts\<close> is the set of request ids with an armed timer.\<close>

record PermissionManager =
  timeoutMs :: int
  pendingTimeouts :: "jstring list"

definition timeouts_set :: "jstring list \<Rightarrow> jstring \<Rightarrow> jstring list" where
  "timeouts_set ts rid = (if rid \<in> set ts then ts else ts @ [rid])"

definition timeouts_delete :: "jstring list \<Rightarrow> jstring \<Rightarrow> jstring list" where
  "timeouts_delete ts rid = filter (\<lambda>r. r \<noteq> rid) ts"

text \<open>
  \<open>handlePermissionRequest\<close> up to the point where its promise is pending; the two setters
  are those of the session the request was resolved to.
\<close>

definition handlePermissionRequest ::
  "PermissionManager \<Rightarrow> PermissionCallbackRequest \<Rightarrow> Session \<Rightarrow> PermissionManager \<times> Session" where
  "handlePermissionRequest pm request session =
     (let fullQuestion = buildQuestion (req_toolName request) (req_toolInput request) (requestId request)
      in (pm\<lparr>pendingTimeouts := timeouts_set (pendingTimeouts pm) (requestId request)\<rparr>,
          session\<lparr>pendingQuestion := Some fullQuestion, status := AWAITING_INPUT\<rparr>))"

text \<open>The timer callback armed by \<open>handlePermissionRequest\<close>, with the response it resolves.\<close>

definition permissionTimeout ::
  "PermissionManager \<Rightarrow> PermissionCallbackRequest \<Rightarrow> Session
     \<Rightarrow> PermissionManager \<times> Session \<times> PermissionResponse" where
  "permissionTimeout pm request session =
     (pm\<lparr>pendingTimeouts := timeouts_delete (pendingTimeouts pm) (requestId request)\<rparr>,
      session\<lparr>pendingQuestion := None\<rparr>,
      \<lparr>behavior = deny, message = Some (js ''Permission request timed out''),
       updatedInput = None\<rparr>)"

definition resolveQuestion ::
  "PermissionManager \<Rightarrow> PendingQuestion \<Rightarrow> jstring list \<Rightarrow> Session
     \<Rightarrow> PermissionManager \<times> Session \<times> PermissionResponse" where
  "resolveQuestion pm q answers session =
     (let response = translateAnswer (questionType q) answers (toolInput q)
      in (pm\<lparr>pendingTimeouts := timeouts_delete (pendingTimeouts pm) (questionId q)\<rparr>,
          session\<lparr>pendingQuestion := None\<rparr>,
          response))"

section \<open>Session manager (claude-code-mcp, session-manager.ts)\<close>

text \<open>
  The store is the \<open>Map\<close> from session id to session.  A handler that the source attaches to a
  session object is applied here to the store entry of that session's id.
\<close>

record SessionManager =
  sessions :: "(jstring \<times> Session) list"
  permissionManager :: PermissionManager
  maxSessions :: int
  eventBufferSize :: int

definition SessionManager_new :: "int \<Rightarrow> int \<Rightarrow> int \<Rightarrow> SessionManager" where
  "SessionManager_new permissionTimeoutMs maxS bufSize =
     \<lparr>sessions = [], permissionManager = \<lparr>timeoutMs = permissionTimeoutMs, pendingTimeouts = []\<rparr>,
      maxSessions = maxS, eventBufferSize = bufSize\<rparr>"

definition getActiveSessionCount :: "SessionManager \<Rightarrow> int" where
  "getActiveSessionCount m = int (length (filter (\<lambda>s. process s \<noteq> None) (Map_values (sessions m))))"

text \<open>
  The loop of the fallback branch of \<open>findSessionForPermission\<close>: one iteration updates
  \<open>latest\<close>.
\<close>

definition latest_step :: "Session option \<Rightarrow> Session \<Rightarrow> Session option" where
  "latest_step latest session =
     (if status session = ACTIVE \<or> status session = AWAITING_INPUT
      then (case latest of None \<Rightarrow> Some session
            | Some l \<Rightarrow> if createdAt session > createdAt l then Some session else latest)
      else latest)"

definition findSessionForPermission :: "SessionManager \<Rightarrow> jstring \<Rightarrow> Session option" where
  "findSessionForPermission m permSessionId =
     (case Map_get (sessions m) permSessionId of
        Some exact \<Rightarrow> Some exact
      | None \<Rightarrow>
          (case (if permSessionId = js ''__pending__''
                 then find (\<lambda>session. startsWith (sessionId session) (js ''temp_'')
                                       \<and> status session = ACTIVE)
                        (Map_values (sessions m))
                 else None) of
             Some session \<Rightarrow> Some session
           | None \<Rightarrow> foldl latest_step None (Map_values (sessions m))))"

definition handleExit ::
  "('q, 'z) BaseSession_scheme \<Rightarrow> int option \<Rightarrow> jstring option \<Rightarrow> ('q, 'z) BaseSession_scheme" where
  "handleExit session code signal =
     (let s = session\<lparr>process := None\<rparr>
      in if status s = ACTIVE \<or> status s = AWAITING_INPUT
         then (if signal = Some (js ''SIGINT'') then s\<lparr>status := INTERRUPTED\<rparr>
               else if code = Some 0 then s\<lparr>status := DONE\<rparr>
               else s\<lparr>status := ERROR,
                      error := Some (js ''Process exited with code '' @ show_code code)\<rparr>)
         else s)"

fun completeFirstRunning :: "ToolUseEvent list \<Rightarrow> ToolUseEvent list" where
  "completeFirstRunning [] = []"
| "completeFirstRunning (t # ts) =
     (if tu_status t = running then t\<lparr>tu_status := completed\<rparr> # ts
      else t # completeFirstRunning ts)"

definition handleStreamEvent :: "Session \<Rightarrow> ParsedEvent \<Rightarrow> Session" where
  "handleStreamEvent session event =
     (case event of
        StreamEvent (Some innerEvent) \<Rightarrow>
          (let s1 = (case content_block innerEvent of
                       Some cb \<Rightarrow>
                         if inner_type innerEvent = js ''content_block_start''
                            \<and> cb_type cb = js ''tool_use''
                         then session\<lparr>toolUseEvents := toolUseEvents session
                                @ [\<lparr>tu_toolName = (case cb_name cb of None \<Rightarrow> js ''unknown''
                                                    | Some n \<Rightarrow> if n = [] then js ''unknown'' else n),
                                    tu_status = running\<rparr>]\<rparr>
                         else session
                     | None \<Rightarrow> session)
           in if inner_type innerEvent = js ''content_block_stop''
              then s1\<lparr>toolUseEvents := rev (completeFirstRunning (rev (toolUseEvents s1)))\<rparr>
              else s1)
      | _ \<Rightarrow> session)"

text \<open>\<open>handleEvent\<close>: what it does to the session object, then what it does to the store.\<close>

definition bufferEvent :: "int \<Rightarrow> Session \<Rightarrow> ParsedEvent \<Rightarrow> Session" where
  "bufferEvent bufSize session event =
     (let pushed = eventBuffer session @ [event]
      in session\<lparr>eventBuffer := (if int (length pushed) > bufSize then tl pushed else pushed)\<rparr>)"

definition handleEvent_session :: "int \<Rightarrow> Session \<Rightarrow> ParsedEvent \<Rightarrow> Session" where
  "handleEvent_session bufSize session0 event =
     (let session = bufferEvent bufSize session0 event
      in case event of
           InitEvent newId \<Rightarrow> if sessionId session \<noteq> newId then session\<lparr>sessionId := newId\<rparr> else session
         | StreamEvent inner \<Rightarrow> handleStreamEvent session event
         | ResultEvent st res \<Rightarrow>
             (if st = js ''success'' then session\<lparr>status := DONE, result := res\<rparr>
              else if st = js ''interrupted'' then session\<lparr>status := INTERRUPTED\<rparr>
              else session\<lparr>status := ERROR,
                     error := Some (case res of None \<Rightarrow> js ''Unknown error''
                                    | Some r \<Rightarrow> if r = [] then js ''Unknown error'' else r)\<rparr>)
         | UnknownEvent raw \<Rightarrow> session)"

definition handleEvent :: "SessionManager \<Rightarrow> jstring \<Rightarrow> ParsedEvent \<Rightarrow> SessionManager" where
  "handleEvent m sid event =
     (case Map_get (sessions m) sid of
        None \<Rightarrow> m
      | Some session0 \<Rightarrow>
          (let session = handleEvent_session (eventBufferSize m) session0 event
           in if sessionId session \<noteq> sid
              then m\<lparr>sessions := Map_set (Map_delete (sessions m) sid) (sessionId session) session\<rparr>
              else m\<lparr>sessions := Map_replace (sessions m) sid session\<rparr>))"

definition createTrackedSession :: "SessionManager \<Rightarrow> jstring \<Rightarrow> int \<Rightarrow> Session \<times> SessionManager" where
  "createTrackedSession m sid now =
     (let session = \<lparr>sessionId = sid, status = DONE, process = None, createdAt = now,
                     pendingQuestion = None, result = None, error = None,
                     permissionMode = None, eventBuffer = [], toolUseEvents = []\<rparr>
      in (session, m\<lparr>sessions := Map_set (sessions m) sid session\<rparr>))"

text \<open>
  \<open>resumeSession\<close>: \<open>child\<close> is the handle that the spawn returns.  The result is the error
  thrown, or the manager with the session updated.
\<close>

definition resumeSession :: "SessionManager \<Rightarrow> Session \<Rightarrow> nat \<Rightarrow> tool_error + SessionManager" where
  "resumeSession m session child =
     (if getActiveSessionCount m \<ge> maxSessions m then Inl (MaxSessionsReached (maxSessions m))
      else Inr (m\<lparr>sessions := Map_replace (sessions m) (sessionId session)
                                 (session\<lparr>process := Some child, status := ACTIVE\<rparr>)\<rparr>))"

text \<open>
  \<open>startSession\<close> up to its first suspension: \<open>now\<close> is the clock reading, \<open>rnd\<close> the random
  suffix of the temp id and \<open>child\<close> the handle the spawn returns.  The reply is sent after
  the wait for the init event, which changes nothing.
\<close>

definition startSession ::
  "SessionManager \<Rightarrow> PermissionMode option \<Rightarrow> int \<Rightarrow> jstring \<Rightarrow> nat \<Rightarrow> tool_error + SessionManager" where
  "startSession m mode now rnd child =
     (if getActiveSessionCount m \<ge> maxSessions m then Inl (MaxSessionsReached (maxSessions m))
      else (let tempId = js ''temp_'' @ show_int now @ js ''_'' @ rnd;
                session = \<lparr>sessionId = tempId, status = ACTIVE, process = None, createdAt = now,
                           pendingQuestion = None, result = None, error = None,
                           permissionMode = mode, eventBuffer = [], toolUseEvents = []\<rparr>
            in Inr (m\<lparr>sessions := Map_set (sessions m) tempId (session\<lparr>process := Some child\<rparr>)\<rparr>)))"

record SayParams =
  say_sessionId :: jstring
  say_message :: jstring
  say_permissionMode :: "PermissionMode option"

text \<open>
  \<open>sayToSession\<close> returns or throws, or it has interrupted the process and waits for its
  exit (\<open>AwaitingExit\<close>); \<open>sayToSession_afterExit\<close> is the rest of that path, from the end of
  the wait, where the handle is cleared if the exit handler has not done so.  An error comes
  with the manager as the operation left it.  \<open>stdinAvailable\<close> tells whether the stdin of the
  process can be written.
\<close>

datatype SayOutcome = Said jstring SessionStatus | AwaitingExit

definition sayToSession ::
  "SessionManager \<Rightarrow> SayParams \<Rightarrow> int \<Rightarrow> nat \<Rightarrow> bool \<Rightarrow> (tool_error + SayOutcome) \<times> SessionManager" where
  "sayToSession m params now child stdinAvailable =
     (let (session, m1) =
            (case Map_get (sessions m) (say_sessionId params) of
               Some s \<Rightarrow> (s, m)
             | None \<Rightarrow> createTrackedSession m (say_sessionId params) now);
          needsModeChange = (say_permissionMode params \<noteq> None
                             \<and> say_permissionMode params \<noteq> permissionMode session)
      in if process session \<noteq> None \<and> status session = ACTIVE
         then (if needsModeChange then (Inr AwaitingExit, m1)
               else if stdinAvailable then (Inr (Said (sessionId session) (status session)), m1)
               else (Inl StdinNotAvailable, m1))
         else (let session2 = (if needsModeChange
                               then session\<lparr>permissionMode := say_permissionMode params\<rparr>
                               else session);
                   m2 = m1\<lparr>sessions := Map_replace (sessions m1) (sessionId session2) session2\<rparr>
               in case resumeSession m2 session2 child of
                    Inl e \<Rightarrow> (Inl e, m2)
                  | Inr m3 \<Rightarrow> (Inr (Said (sessionId session2) ACTIVE), m3)))"

definition sayToSession_afterExit ::
  "SessionManager \<Rightarrow> Session \<Rightarrow> SayParams \<Rightarrow> nat \<Rightarrow> (tool_error + SayOutcome) \<times> SessionManager" where
  "sayToSession_afterExit m session params child =
     (let session2 = session\<lparr>process := None, permissionMode := say_permissionMode params\<rparr>;
          m2 = m\<lparr>sessions := Map_replace (sessions m) (sessionId session2) session2\<rparr>
      in case resumeSession m2 session2 child of
           Inl e \<Rightarrow> (Inl e, m2)
         | Inr m3 \<Rightarrow> (Inr (Said (sessionId session2) ACTIVE), m3))"

definition extractTextFromEvents :: "ParsedEvent list \<Rightarrow> int \<Rightarrow> jstring list" where
  "extractTextFromEvents evs count =
     slice_from
       (List.map_filter
          (\<lambda>event. case event of
                      StreamEvent (Some inner) \<Rightarrow>
                        (case delta_text inner of
                           Some t \<Rightarrow> if t = [] then None else Some t
                         | None \<Rightarrow> None)
                    | _ \<Rightarrow> None)
          evs)
       (- count)"

record StatusView =
  v_sessionId :: jstring
  v_status :: SessionStatus
  v_result :: "jstring option"
  v_recentOutput :: "jstring list"
  v_pendingQuestion :: "(jstring \<times> QuestionType) option"
  v_toolUseEvents :: "ToolUseEvent list"

definition getSessionStatus :: "SessionManager \<Rightarrow> jstring \<Rightarrow> int \<Rightarrow> tool_error + StatusView" where
  "getSessionStatus m sid outputLines =
     (case Map_get (sessions m) sid of
        None \<Rightarrow> Inl (UnknownSession sid)
      | Some session \<Rightarrow>
          Inr \<lparr>v_sessionId = sessionId session,
               v_status = status session,
               v_result = (if result session = Some [] then None else result session),
               v_recentOutput = extractTextFromEvents (eventBuffer session) outputLines,
               v_pendingQuestion =
                 (case pendingQuestion session of
                    Some q \<Rightarrow> if status session = AWAITING_INPUT
                              then Some (questionId q, questionType q) else None
                  | None \<Rightarrow> None),
               v_toolUseEvents = toolUseEvents session\<rparr>)"

definition respondToQuestion ::
  "SessionManager \<Rightarrow> jstring \<Rightarrow> jstring \<Rightarrow> jstring list
     \<Rightarrow> tool_error + (SessionManager \<times> PermissionResponse \<times> jstring \<times> SessionStatus)" where
  "respondToQuestion m sid qid answers =
     (case Map_get (sessions m) sid of
        None \<Rightarrow> Inl (UnknownSession sid)
      | Some session \<Rightarrow>
          (case pendingQuestion session of
             None \<Rightarrow> Inl (NoPendingQuestion sid)
           | Some q \<Rightarrow>
               if questionId q \<noteq> qid then Inl (QuestionIdMismatch (questionId q) qid)
               else (let (pm, s1, response) = resolveQuestion (permissionManager m) q answers session;
                         s2 = s1\<lparr>status := ACTIVE\<rparr>
                     in Inr (m\<lparr>sessions := Map_replace (sessions m) sid s2, permissionManager := pm\<rparr>,
                             response, sessionId s2, status s2))))"

definition interruptSession ::
  "SessionManager \<Rightarrow> jstring \<Rightarrow> tool_error + (SessionManager \<times> jstring \<times> SessionStatus)" where
  "interruptSession m sid =
     (case Map_get (sessions m) sid of
        None \<Rightarrow> Inl (UnknownSession sid)
      | Some session \<Rightarrow>
          (case process session of
             None \<Rightarrow> Inl (NoActiveProcess sid)
           | Some child \<Rightarrow>
               (let s1 = session\<lparr>status := INTERRUPTED\<rparr>
                in Inr (m\<lparr>sessions := Map_replace (sessions m) sid s1\<rparr>, sessionId s1, INTERRUPTED))))"

text \<open>
  The callback of the permission server: the immediate reply when no session is found,
  otherwise the request is left pending on the session found.
\<close>

definition permissionCallback ::
  "SessionManager \<Rightarrow> PermissionCallbackRequest \<Rightarrow> PermissionResponse option \<times> SessionManager" where
  "permissionCallback m request =
     (case findSessionForPermission m (req_sessionId request) of
        None \<Rightarrow> (Some \<lparr>behavior = deny, message = Some (js ''Unknown session''),
                        updatedInput = None\<rparr>, m)
      | Some session \<Rightarrow>
          (let (pm, s1) = handlePermissionRequest (permissionManager m) request session
           in (None, m\<lparr>sessions := Map_replace (sessions m) (sessionId session) s1,
                        permissionManager := pm\<rparr>)))"

text \<open>
  The timer of a pending request fires, on the session whose id is now \<open>sid\<close>; a timer that
  was cleared does not fire.  Request ids are taken to be unique.
\<close>

definition timeoutFires ::
  "SessionManager \<Rightarrow> PermissionCallbackRequest \<Rightarrow> jstring \<Rightarrow> PermissionResponse option \<times> SessionManager" where
  "timeoutFires m request sid =
     (if requestId request \<notin> set (pendingTimeouts (permissionManager m)) then (None, m)
      else (case Map_get (sessions m) sid of
              None \<Rightarrow> (None, m)
            | Some session \<Rightarrow>
                (let (pm, s1, response) = permissionTimeout (permissionManager m) request session
                 in (Some response,
                     m\<lparr>sessions := Map_replace (sessions m) sid s1, permissionManager := pm\<rparr>))))"

definition exitHandler :: "SessionManager \<Rightarrow> jstring \<Rightarrow> int option \<Rightarrow> jstring option \<Rightarrow> SessionManager" where
  "exitHandler m sid code signal =
     (case Map_get (sessions m) sid of
        None \<Rightarrow> m
      | Some session \<Rightarrow>
          m\<lparr>sessions := Map_replace (sessions m) sid (handleExit session code signal)\<rparr>)"

text \<open>
  Everything that changes the manager: the tool operations, the handlers and the timers.
  \<open>perform\<close> keeps the manager each of them leaves behind, also when it throws.
\<close>

datatype Action =
    Start "PermissionMode option" int jstring nat
  | Say SayParams int nat bool
  | SayAfterExit jstring SayParams nat
  | Respond jstring jstring "jstring list"
  | Interrupt jstring
  | Event jstring ParsedEvent
  | Exit jstring "int option" "jstring option"
  | Approval PermissionCallbackRequest
  | Timeout PermissionCallbackRequest jstring

fun perform :: "SessionManager \<Rightarrow> Action \<Rightarrow> SessionManager" where
  "perform m (Start mode now rnd child) =
     (case startSession m mode now rnd child of Inl e \<Rightarrow> m | Inr m1 \<Rightarrow> m1)"
| "perform m (Say params now child stdinAvailable) =
     snd (sayToSession m params now child stdinAvailable)"
| "perform m (SayAfterExit sid params child) =
     (case Map_get (sessions m) sid of
        None \<Rightarrow> m
      | Some session \<Rightarrow> snd (sayToSession_afterExit m session params child))"
| "perform m (Respond sid qid answers) =
     (case respondToQuestion m sid qid answers of Inl e \<Rightarrow> m | Inr r \<Rightarrow> fst r)"
| "perform m (Interrupt sid) = (case interruptSession m sid of Inl e \<Rightarrow> m | Inr r \<Rightarrow> fst r)"
| "perform m (Event sid event) = handleEvent m sid event"
| "perform m (Exit sid code signal) = exitHandler m sid code signal"
| "perform m (Approval request) = snd (permissionCallback m request)"
| "perform m (Timeout request sid) = snd (timeoutFires m request sid)"

definition performAll :: "SessionManager \<Rightarrow> Action list \<Rightarrow> SessionManager" where
  "performAll m acts = foldl perform m acts"

section \<open>Session manager of the Codex connector (codex, session-manager.ts)\<close>

text \<open>Of a Codex question the id and the request text are kept.\<close>

record CodexPendingQuestion =
  cq_id :: jstring
  cq_question :: jstring

record ApprovalResponse =
  approved :: bool
  ap_reason :: "jstring option"

record CodexSession = "CodexPendingQuestion BaseSession" +
  codexEventBuffer :: "json EventBuffer"
  turnCount :: int

record CodexManager =
  codex_sessions :: "(jstring \<times> CodexSession) list"
  codex_maxSessions :: int
  codex_eventBufferSize :: int

definition countActiveSessions :: "(jstring \<times> ('q, 'z) BaseSession_scheme) list \<Rightarrow> int" where
  "countActiveSessions store = int (length (filter (\<lambda>s. process s \<noteq> None) (Map_values store)))"

definition codex_createTrackedSession ::
  "CodexManager \<Rightarrow> jstring \<Rightarrow> int \<Rightarrow> CodexSession \<times> CodexManager" where
  "codex_createTrackedSession m sid now =
     (let session = \<lparr>sessionId = sid, status = DONE, process = None, createdAt = now,
                     pendingQuestion = None, result = None, error = None,
                     codexEventBuffer = EventBuffer_new (codex_eventBufferSize m), turnCount = 0\<rparr>
      in (session, m\<lparr>codex_sessions := Map_set (codex_sessions m) sid session\<rparr>))"

definition codex_resumeSession ::
  "CodexManager \<Rightarrow> CodexSession \<Rightarrow> nat \<Rightarrow> tool_error + CodexManager" where
  "codex_resumeSession m session child =
     (if countActiveSessions (codex_sessions m) \<ge> codex_maxSessions m
      then Inl (MaxSessionsReached (codex_maxSessions m))
      else Inr (m\<lparr>codex_sessions := Map_replace (codex_sessions m) (sessionId session)
                                       (session\<lparr>process := Some child, status := ACTIVE\<rparr>)\<rparr>))"

definition codex_sayToSession ::
  "CodexManager \<Rightarrow> jstring \<Rightarrow> int \<Rightarrow> nat \<Rightarrow> (tool_error + jstring \<times> SessionStatus) \<times> CodexManager" where
  "codex_sayToSession m sid now child =
     (let (session, m1) =
            (case Map_get (codex_sessions m) sid of
               Some s \<Rightarrow> (s, m)
             | None \<Rightarrow> codex_createTrackedSession m sid now)
      in if process session \<noteq> None \<and> status session = ACTIVE then (Inl (StillProcessing sid), m1)
         else (case codex_resumeSession m1 session child of
                 Inl e \<Rightarrow> (Inl e, m1)
               | Inr m2 \<Rightarrow> (Inr (sessionId session, ACTIVE), m2)))"

record CodexStatusView =
  cv_sessionId :: jstring
  cv_status :: SessionStatus
  cv_result :: "jstring option"
  cv_pendingQuestion :: "jstring option"
  cv_turnCount :: "int option"

definition codex_getSessionStatus :: "CodexManager \<Rightarrow> jstring \<Rightarrow> tool_error + CodexStatusView" where
  "codex_getSessionStatus m sid =
     (case Map_get (codex_sessions m) sid of
        None \<Rightarrow> Inl (UnknownSession sid)
      | Some session \<Rightarrow>
          Inr \<lparr>cv_sessionId = sessionId session,
               cv_status = status session,
               cv_result = (if result session = Some [] then None else result session),
               cv_pendingQuestion =
                 (case pendingQuestion session of
                    Some q \<Rightarrow> if status session = AWAITING_INPUT then Some (cq_id q) else None
                  | None \<Rightarrow> None),
               cv_turnCount = (if turnCount session > 0 then Some (turnCount session) else None)\<rparr>)"

text \<open>
  \<open>handleApprovalRequest\<close> and the timeout callback it registers.  The callback writes the
  denial to the stdin of a live process; when that stdin cannot be written the write throws
  and nothing is resolved.
\<close>

definition codex_handleApprovalRequest :: "CodexSession \<Rightarrow> jstring \<Rightarrow> jstring \<Rightarrow> CodexSession" where
  "codex_handleApprovalRequest session requestText rid =
     session\<lparr>pendingQuestion := Some \<lparr>cq_id = rid, cq_question = requestText\<rparr>,
             status := AWAITING_INPUT\<rparr>"

definition codex_approvalTimeout :: "CodexSession \<Rightarrow> bool \<Rightarrow> CodexSession \<times> ApprovalResponse option" where
  "codex_approvalTimeout session stdinAvailable =
     (let s1 = session\<lparr>pendingQuestion := None, status := ACTIVE\<rparr>
      in if process s1 \<noteq> None \<and> \<not> stdinAvailable then (s1, None)
         else (s1, Some \<lparr>approved = False, ap_reason = Some (js ''Approval timed out'')\<rparr>))"

section \<open>Predicates of the properties\<close>


text \<open>The statuses after which a session has ended its turn.\<close>

definition terminal :: "SessionStatus \<Rightarrow> bool" where
  "terminal st \<longleftrightarrow> st = DONE \<or> st = ERROR \<or> st = INTERRUPTED"

text \<open>
  The sessions the two lookup rules of \<open>findSessionForPermission\<close> select from: those still
  on a temp id and ACTIVE, and those ACTIVE or AWAITING_INPUT.
\<close>

definition temp_active :: "Session \<Rightarrow> bool" where
  "temp_active s \<longleftrightarrow> startsWith (sessionId s) (js ''temp_'') \<and> status s = ACTIVE"

definition live :: "Session \<Rightarrow> bool" where
  "live s \<longleftrightarrow> status s = ACTIVE \<or> status s = AWAITING_INPUT"

text \<open>Invariants of the sessions of the store, and the actions that are set apart.\<close>

definition all_sessions :: "(Session \<Rightarrow> bool) \<Rightarrow> SessionManager \<Rightarrow> bool" where
  "all_sessions P m \<longleftrightarrow> (\<forall>s\<in>set (Map_values (sessions m)). P s)"

definition awaiting_has_question :: "Session \<Rightarrow> bool" where
  "awaiting_has_question s \<longleftrightarrow> (status s = AWAITING_INPUT \<longrightarrow> pendingQuestion s \<noteq> None)"

definition ended_without_process :: "Session \<Rightarrow> bool" where
  "ended_without_process s \<longleftrightarrow> (terminal (status s) \<longrightarrow> process s = None)"

fun is_timeout :: "Action \<Rightarrow> bool" where
  "is_timeout (Timeout request sid) = True"
| "is_timeout a = False"

fun ends_turn :: "Action \<Rightarrow> bool" where
  "ends_turn (Interrupt sid) = True"
| "ends_turn (Event sid (ResultEvent st res)) = True"
| "ends_turn a = False"

section \<open>Concrete scenarios\<close>

text \<open>The tool input of scenario D.\<close>

definition scenarioD_input :: "(jstring \<times> json) list" where
  "scenarioD_input =
     [(js ''questions'',
       JArr [JObj [(js ''question'', JStr (js ''Which?'')),
                   (js ''options'', JArr [JStr (js ''OAuth2''), JStr (js ''SAML'')])],
             JObj [(js ''question'', JStr (js ''Tests?'')),
                   (js ''options'', JArr [JStr (js ''Yes''), JStr (js ''No'')])]])]"

text \<open>A ring history of capacity 3 after four appends.\<close>

definition ring3 :: "nat EventBuffer" where
  "ring3 = EventBuffer_pushAll (EventBuffer_new 3) [1, 2, 3, 4]"




text \<open>
  Scenario B: a session is started, and before its init event the agent asks for approval of
  \<open>Edit\<close>; nobody responds.
\<close>

definition scenarioB_request :: PermissionCallbackRequest where
  "scenarioB_request =
     \<lparr>req_sessionId = js ''__pending__'', req_toolName = js ''Edit'',
      req_toolInput = [(js ''file_path'', JStr (js ''test.ts''))],
      requestId = js ''req_timeout''\<rparr>"

definition scenarioB_id :: jstring where
  "scenarioB_id = js ''temp_1000_k3x9qz''"

definition scenarioB_waiting :: SessionManager where
  "scenarioB_waiting =
     performAll (SessionManager_new 500 10 500)
       [Start None 1000 (js ''k3x9qz'') 1, Approval scenarioB_request]"

text \<open>The session of scenario A once its init event has arrived.\<close>

definition scenarioA_session :: Session where
  "scenarioA_session =
     \<lparr>sessionId = js ''real-1'', status = ACTIVE, process = Some 1, createdAt = 1000,
      pendingQuestion = None, result = None, error = None,
      permissionMode = None, eventBuffer = [], toolUseEvents = []\<rparr>"

text \<open>Two sessions started one after the other, neither initialised yet.\<close>

definition twoTemp :: SessionManager where
  "twoTemp =
     performAll (SessionManager_new 500 10 500)
       [Start None 1000 (js ''aaaaaa'') 1, Start None 2000 (js ''bbbbbb'') 2]"

definition twoTemp_first :: Session where
  "twoTemp_first =
     \<lparr>sessionId = js ''temp_1000_aaaaaa'', status = ACTIVE, process = Some 1, createdAt = 1000,
      pendingQuestion = None, result = None, error = None,
      permissionMode = None, eventBuffer = [], toolUseEvents = []\<rparr>"

definition twoTemp_second :: Session where
  "twoTemp_second =
     \<lparr>sessionId = js ''temp_2000_bbbbbb'', status = ACTIVE, process = Some 2, createdAt = 2000,
      pendingQuestion = None, result = None, error = None,
      permissionMode = None, eventBuffer = [], toolUseEvents = []\<rparr>"

text \<open>
  A manager at its capacity of one session, the same for the Codex connector, and a follow-up
  for a session id that neither knows.
\<close>

definition fullManager :: SessionManager where
  "fullManager = performAll (SessionManager_new 500 1 500) [Start None 1000 (js ''aaaaaa'') 1]"

definition fullCodexManager :: CodexManager where
  "fullCodexManager =
     \<lparr>codex_sessions =
        [(js ''thread-1'',
          \<lparr>sessionId = js ''thread-1'', status = ACTIVE, process = Some 1, createdAt = 1000,
           pendingQuestion = None, result = None, error = None,
           codexEventBuffer = EventBuffer_new 500, turnCount = 1\<rparr>)],
      codex_maxSessions = 1, codex_eventBufferSize = 500\<rparr>"

definition adoptParams :: SayParams where
  "adoptParams = \<lparr>say_sessionId = js ''user-created-session'', say_message = js ''hello'',
                   say_permissionMode = Some mode_plan\<rparr>"

text \<open>
  A session that is interrupted right after its start, one whose process exits with code 0,
  and the actions of a session that is asked, answered, initialised and finished.
\<close>

definition interruptedManager :: SessionManager where
  "interruptedManager =
     performAll (SessionManager_new 500 10 500)
       [Start None 1000 (js ''aaaaaa'') 1, Interrupt (js ''temp_1000_aaaaaa'')]"

definition exitedManager :: SessionManager where
  "exitedManager =
     performAll (SessionManager_new 500 10 500)
       [Start None 1000 (js ''aaaaaa'') 1, Exit (js ''temp_1000_aaaaaa'') (Some 0) None]"

definition exitedSession :: Session where
  "exitedSession =
     \<lparr>sessionId = js ''temp_1000_aaaaaa'', status = DONE, process = None, createdAt = 1000,
      pendingQuestion = None, result = None, error = None,
      permissionMode = None, eventBuffer = [], toolUseEvents = []\<rparr>"

definition scenarioC_actions :: "Action list" where
  "scenarioC_actions =
     [Start (Some mode_plan) 1000 (js ''k3x9qz'') 1,
      Approval scenarioB_request,
      Respond scenarioB_id (js ''req_timeout'') [js ''deny: not now''],
      Event scenarioB_id (InitEvent (js ''real-1'')),
      Event (js ''real-1'') (ResultEvent (js ''success'') (Some (js ''World!''))),
      Exit (js ''real-1'') (Some 0) None]"

section \<open>Properties of Maps\<close>

lemma Map_get_Map_set: "Map_get (Map_set m k v) = (Map_get m)(k \<mapsto> v)"
  by (induction m) (auto simp: Map_get_def fun_eq_iff)

lemma Map_set_new: "Map_get m k = None \<Longrightarrow> Map_set m k v = m @ [(k, v)]"
  by (induction m) (auto simp: Map_get_def split: if_splits)

lemma Map_get_snoc: "Map_get m k = None \<Longrightarrow> Map_get (m @ [(k, v)]) k = Some v"
  by (simp add: Map_get_def map_add_def)

lemma Map_set_twice: "Map_set (Map_set m k v) k v' = Map_set m k v'"
  by (induction m) auto

lemma set_Map_set: "set (Map_set m k v) \<subseteq> insert (k, v) (set m)"
  by (induction m) (auto split: if_splits)

lemma Map_values_Map_set: "set (Map_values (Map_set m k v)) \<subseteq> insert v (set (Map_values m))"
  using set_Map_set [of m k v] by (fastforce simp: Map_values_def)

lemma Map_get_Map_replace:
  "Map_get (Map_replace m k v) k' = (if k' = k \<and> Map_get m k \<noteq> None then Some v else Map_get m k')"
  by (induction m) (auto simp: Map_get_def)

lemma Map_replace_absent: "Map_get m k = None \<Longrightarrow> Map_replace m k v = m"
  by (induction m) (auto simp: Map_get_def split: if_splits)

lemma Map_replace_snoc: "Map_get m k = None \<Longrightarrow> Map_replace (m @ [(k, p)]) k v = m @ [(k, v)]"
  by (induction m) (auto simp: Map_get_def split: if_splits)

lemma set_Map_replace: "set (Map_replace m k v) \<subseteq> insert (k, v) (set m)"
  by (induction m) (auto split: if_splits)

lemma Map_values_Map_replace:
  "set (Map_values (Map_replace m k v)) \<subseteq> insert v (set (Map_values m))"
  using set_Map_replace [of m k v] by (fastforce simp: Map_values_def)

lemma Map_values_Map_delete: "set (Map_values (Map_delete m k)) \<subseteq> set (Map_values m)"
  by (auto simp: Map_values_def Map_delete_def)

lemma Map_get_in_values: "Map_get m k = Some v \<Longrightarrow> v \<in> set (Map_values m)"
  by (auto simp: Map_get_def Map_values_def dest: map_of_SomeD intro: rev_image_eqI)

section \<open>Properties of the answer parser\<close>

lemma indexOf_absent: "c \<notin> set s \<Longrightarrow> indexOf s c = -1"
  by (induction s) auto

lemma indexOf_present:
  "c \<in> set s \<Longrightarrow> indexOf s c = int (length (takeWhile (\<lambda>x. x \<noteq> c) s))"
proof (induction s)
  case Nil
  then show ?case by simp
next
  case (Cons x xs)
  show ?case
  proof (cases "x = c")
    case True
    then show ?thesis by simp
  next
    case False
    with Cons.prems have "c \<in> set xs" by simp
    with Cons.IH False show ?thesis by (simp add: Let_def)
  qed
qed

lemma slice_prefix: "n \<le> length xs \<Longrightarrow> slice xs 0 (int n) = take n xs"
  by (simp add: slice_def clamp_index_def)

lemma slice_from_nat: "slice_from xs (int n) = drop n xs"
  by (cases "n \<le> length xs") (simp_all add: slice_from_def clamp_index_def)

lemma drop_past_first:
  "c \<in> set s \<Longrightarrow> drop (Suc (length (takeWhile (\<lambda>x. x \<noteq> c) s))) s = tl (dropWhile (\<lambda>x. x \<noteq> c) s)"
  by (induction s) auto

lemma dropWhile_head_kept: "xs \<noteq> [] \<Longrightarrow> \<not> P (hd xs) \<Longrightarrow> dropWhile P xs = xs"
  by (cases xs) simp_all

lemma trim_no_outer_ws: "no_outer_ws s \<Longrightarrow> trim s = s"
proof (cases "s = []")
  case True
  then show ?thesis by (simp add: trim_def)
next
  case False
  assume "no_outer_ws s"
  with False have h: "\<not> is_ws (hd s)" and l: "\<not> is_ws (last s)"
    by (simp_all add: no_outer_ws_def)
  from False h have 1: "dropWhile is_ws s = s" by (rule dropWhile_head_kept)
  from False l have "dropWhile is_ws (rev s) = rev s"
    by (simp add: dropWhile_head_kept hd_rev)
  with 1 show ?thesis by (simp add: trim_def)
qed

lemma trim_space_prefix: "no_outer_ws r \<Longrightarrow> trim (js '' '' @ r) = r"
proof -
  assume r: "no_outer_ws r"
  have sp: "is_ws (0x20 :: jschar)" by (simp add: is_ws_def)
  have "dropWhile is_ws (js '' '' @ r) = dropWhile is_ws r"
    using sp by (simp add: js_def)
  then have "trim (js '' '' @ r) = trim r" by (simp add: trim_def)
  with r show ?thesis by (simp add: trim_no_outer_ws)
qed

lemma parseAnswer_no_colon:
  "colon \<notin> set s \<Longrightarrow> parseAnswer s = \<lparr>decision = trim s, reason = None\<rparr>"
  by (simp add: parseAnswer_def indexOf_absent)

lemma parseAnswer_colon:
  assumes "colon \<in> set s"
  shows "parseAnswer s =
           \<lparr>decision = trim (takeWhile (\<lambda>x. x \<noteq> colon) s),
            reason = Some (trim (tl (dropWhile (\<lambda>x. x \<noteq> colon) s)))\<rparr>"
proof -
  let ?n = "length (takeWhile (\<lambda>x. x \<noteq> colon) s)"
  have i: "indexOf s colon = int ?n" using assms by (rule indexOf_present)
  have le: "?n \<le> length s" by (rule length_takeWhile_le)
  have "slice s 0 (int ?n) = take ?n s" using le by (rule slice_prefix)
  also have "\<dots> = takeWhile (\<lambda>x. x \<noteq> colon) s" by (rule takeWhile_eq_take [symmetric])
  finally have d: "slice s 0 (int ?n) = takeWhile (\<lambda>x. x \<noteq> colon) s" .
  have "int ?n + 1 = int (Suc ?n)" by simp
  then have "slice_from s (int ?n + 1) = slice_from s (int (Suc ?n))" by (rule arg_cong)
  also have "\<dots> = drop (Suc ?n) s" by (rule slice_from_nat)
  also have "\<dots> = tl (dropWhile (\<lambda>x. x \<noteq> colon) s)" using assms by (rule drop_past_first)
  finally have r: "slice_from s (int ?n + 1) = tl (dropWhile (\<lambda>x. x \<noteq> colon) s)" .
  show ?thesis unfolding parseAnswer_def Let_def i d r by simp
qed

lemma takeWhile_first: "c \<notin> set a \<Longrightarrow> takeWhile (\<lambda>x. x \<noteq> c) (a @ c # b) = a"
  by (induction a) auto

lemma dropWhile_first: "c \<notin> set a \<Longrightarrow> dropWhile (\<lambda>x. x \<noteq> c) (a @ c # b) = c # b"
  by (induction a) auto

text \<open>
  Claim C9.  Without a colon the answer is its trimmed text and has no reason, so the empty
  string yields the empty decision.  With a colon the answer is split at the first one only:
  whatever follows it, further colons included, is the reason, and both sides are trimmed.
  Hence, for \<open>d\<close> and \<open>r\<close> without leading or trailing whitespace and \<open>d\<close> without a colon,
  parsing \<open>d + ": " + r\<close> gives back \<open>d\<close> and \<open>r\<close>, and parsing \<open>d\<close> gives back \<open>d\<close>.
\<close>

theorem parseAnswer_contract:
  "(colon \<notin> set s \<longrightarrow> parseAnswer s = \<lparr>decision = trim s, reason = None\<rparr>)
   \<and> parseAnswer [] = \<lparr>decision = [], reason = None\<rparr>
   \<and> (colon \<notin> set a \<longrightarrow>
        parseAnswer (a @ colon # b) = \<lparr>decision = trim a, reason = Some (trim b)\<rparr>)
   \<and> (no_outer_ws d \<and> no_outer_ws r \<and> colon \<notin> set d \<longrightarrow>
        parseAnswer (d @ js '': '' @ r) = \<lparr>decision = d, reason = Some r\<rparr>
        \<and> parseAnswer d = \<lparr>decision = d, reason = None\<rparr>)"
proof (intro conjI impI)
  assume "colon \<notin> set s"
  then show "parseAnswer s = \<lparr>decision = trim s, reason = None\<rparr>"
    by (rule parseAnswer_no_colon)
next
  show "parseAnswer [] = \<lparr>decision = [], reason = None\<rparr>"
    by (simp add: parseAnswer_def trim_def)
next
  assume a: "colon \<notin> set a"
  then have t: "takeWhile (\<lambda>x. x \<noteq> colon) (a @ colon # b) = a"
    by (rule takeWhile_first)
  from a have d: "dropWhile (\<lambda>x. x \<noteq> colon) (a @ colon # b) = colon # b"
    by (rule dropWhile_first)
  have "colon \<in> set (a @ colon # b)" by simp
  from parseAnswer_colon [OF this] show
    "parseAnswer (a @ colon # b) = \<lparr>decision = trim a, reason = Some (trim b)\<rparr>"
    by (simp add: t d)
next
  assume h: "no_outer_ws d \<and> no_outer_ws r \<and> colon \<notin> set d"
  then have a: "colon \<notin> set d" by simp
  then have t: "takeWhile (\<lambda>x. x \<noteq> colon) (d @ colon # js '' '' @ r) = d"
    by (rule takeWhile_first)
  from a have dr: "dropWhile (\<lambda>x. x \<noteq> colon) (d @ colon # js '' '' @ r) = colon # js '' '' @ r"
    by (rule dropWhile_first)
  have e: "d @ js '': '' @ r = d @ colon # js '' '' @ r"
    by (simp add: js_def colon_def)
  have "colon \<in> set (d @ colon # js '' '' @ r)" by simp
  from parseAnswer_colon [OF this] h show
    "parseAnswer (d @ js '': '' @ r) = \<lparr>decision = d, reason = Some r\<rparr>"
    unfolding e by (simp add: t dr trim_no_outer_ws trim_space_prefix)
next
  assume h: "no_outer_ws d \<and> no_outer_ws r \<and> colon \<notin> set d"
  then show "parseAnswer d = \<lparr>decision = d, reason = None\<rparr>"
    by (simp add: parseAnswer_no_colon trim_no_outer_ws)
qed

text \<open>The contract at the answers of the unit tests.\<close>

theorem parseAnswer_contract_witness:
  "colon \<notin> set (js ''  approve  '')
   \<and> parseAnswer (js ''  approve  '') = \<lparr>decision = js ''approve'', reason = None\<rparr>
   \<and> colon \<notin> set (js ''  deny  '')
   \<and> parseAnswer (js ''  deny  :  reason: with: colons  '')
       = \<lparr>decision = js ''deny'', reason = Some (js ''reason: with: colons'')\<rparr>
   \<and> no_outer_ws (js ''deny'') \<and> no_outer_ws (js ''too dangerous'')
   \<and> colon \<notin> set (js ''deny'')
   \<and> parseAnswer (js ''deny: too dangerous'')
       = \<lparr>decision = js ''deny'', reason = Some (js ''too dangerous'')\<rparr>
   \<and> parseAnswer (js ''deny'') = \<lparr>decision = js ''deny'', reason = None\<rparr>"
  using parseAnswer_contract [of "js ''  approve  ''" "js ''  deny  ''"
      "js ''  reason: with: colons  ''" "js ''deny''" "js ''too dangerous''"]
  by (simp add: js_def colon_def trim_def is_ws_def no_outer_ws_def)

section \<open>Properties of the translator\<close>

text \<open>
  Claim C8.  For a tool approval the response is allow when the decision parsed from the first
  answer is \<open>allow\<close>, and otherwise deny with the parsed reason as message.  For a plan
  approval it is allow with the original input when that decision is \<open>approve\<close>, and
  otherwise deny with the reason.  Without any answer both are denied with no message.  For a
  question it is allow, and the updated input is the original input with the field \<open>answers\<close>
  set to the list of the operator's answers.
\<close>

theorem translateAnswer_table:
  "translateAnswer tool_approval (a # rest) inp =
     (if decision (parseAnswer a) = js ''allow''
      then \<lparr>behavior = allow, message = None, updatedInput = None\<rparr>
      else \<lparr>behavior = deny, message = reason (parseAnswer a), updatedInput = None\<rparr>)
   \<and> translateAnswer plan_approval (a # rest) inp =
     (if decision (parseAnswer a) = js ''approve''
      then \<lparr>behavior = allow, message = None, updatedInput = Some inp\<rparr>
      else \<lparr>behavior = deny, message = reason (parseAnswer a), updatedInput = None\<rparr>)
   \<and> translateAnswer tool_approval [] inp = \<lparr>behavior = deny, message = None, updatedInput = None\<rparr>
   \<and> translateAnswer plan_approval [] inp = \<lparr>behavior = deny, message = None, updatedInput = None\<rparr>
   \<and> behavior (translateAnswer question answers inp) = allow
   \<and> message (translateAnswer question answers inp) = None
   \<and> (\<exists>u. updatedInput (translateAnswer question answers inp) = Some u
          \<and> Map_get u = (Map_get inp)(js ''answers'' \<mapsto> JArr (map JStr answers)))"
proof (intro conjI)
  show "\<exists>u. updatedInput (translateAnswer question answers inp) = Some u
          \<and> Map_get u = (Map_get inp)(js ''answers'' \<mapsto> JArr (map JStr answers))"
    by (simp add: translateAnswer_def Map_get_Map_set)
  have ne: "js ''deny'' \<noteq> js ''allow''" "js ''reject'' \<noteq> js ''approve''"
    by (simp_all add: js_def)
  show "translateAnswer tool_approval [] inp = \<lparr>behavior = deny, message = None, updatedInput = None\<rparr>"
    using ne by (simp add: translateAnswer_def first_or_def)
  show "translateAnswer plan_approval [] inp = \<lparr>behavior = deny, message = None, updatedInput = None\<rparr>"
    using ne by (simp add: translateAnswer_def first_or_def)
qed (simp_all add: translateAnswer_def first_or_def)

text \<open>The table at the answers of scenarios C and D and of the unit tests.\<close>

theorem translateAnswer_table_witness:
  "translateAnswer tool_approval [js ''allow''] [] = \<lparr>behavior = allow, message = None, updatedInput = None\<rparr>
   \<and> translateAnswer tool_approval [js ''deny: too dangerous''] []
       = \<lparr>behavior = deny, message = Some (js ''too dangerous''), updatedInput = None\<rparr>
   \<and> translateAnswer plan_approval [js ''approve''] [(js ''plan'', JStr (js ''some plan''))]
       = \<lparr>behavior = allow, message = None, updatedInput = Some [(js ''plan'', JStr (js ''some plan''))]\<rparr>
   \<and> translateAnswer plan_approval [js ''reject: also cover the auth module'']
         [(js ''plan'', JStr (js ''x''))]
       = \<lparr>behavior = deny, message = Some (js ''also cover the auth module''), updatedInput = None\<rparr>
   \<and> updatedInput (translateAnswer question [js ''OAuth2'', js ''Yes'']
         scenarioD_input)
       = Some (scenarioD_input @ [(js ''answers'', JArr [JStr (js ''OAuth2''), JStr (js ''Yes'')])])"
  using translateAnswer_table [of "js ''allow''" "[]" "[]"]
    translateAnswer_table [of "js ''deny: too dangerous''" "[]" "[]"]
    translateAnswer_table [of "js ''approve''" "[]" "[(js ''plan'', JStr (js ''some plan''))]"]
    translateAnswer_table [of "js ''reject: also cover the auth module''" "[]" "[(js ''plan'', JStr (js ''x''))]"]
  by (simp add: translateAnswer_def first_or_def parseAnswer_def js_def colon_def trim_def
      is_ws_def slice_def slice_from_def clamp_index_def Let_def scenarioD_input_def)


section \<open>Properties of the ring history\<close>

lemma drop_one_tl: "drop (Suc 0) ys = tl ys"
  by (cases ys) simp_all

lemma drop_window_snoc:
  assumes "k < length xs"
  shows "drop (Suc 0) (drop (length xs - k) xs @ [e]) = drop (Suc (length xs) - k) (xs @ [e])"
proof (cases "k = 0")
  case True
  then show ?thesis by simp
next
  case False
  let ?d = "length xs - k"
  from assms False have d: "?d < length xs" by arith
  from assms have s: "Suc (length xs) - k = Suc ?d" by arith
  from d have ne: "drop ?d xs \<noteq> []" by simp
  then have "drop (Suc 0) (drop ?d xs @ [e]) = drop (Suc 0) (drop ?d xs) @ [e]"
    by (cases "drop ?d xs") simp_all
  also have "\<dots> = drop (Suc ?d) xs @ [e]" by simp
  also from d have "\<dots> = drop (Suc ?d) (xs @ [e])" by simp
  finally show ?thesis unfolding s .
qed

lemma EventBuffer_push_events:
  assumes "0 \<le> maxSize b" "length (events b) \<le> nat (maxSize b)"
  shows "events (EventBuffer_push b e) = drop (Suc (length (events b)) - nat (maxSize b)) (events b @ [e])"
proof (cases "length (events b) = nat (maxSize b)")
  case True
  with assms have gt: "int (length (events b @ [e])) > maxSize b" by simp
  from True have "Suc (length (events b)) - nat (maxSize b) = Suc 0" by simp
  then have "drop (Suc (length (events b)) - nat (maxSize b)) (events b @ [e]) = tl (events b @ [e])"
    by (simp only: drop_one_tl)
  moreover from gt have "events (EventBuffer_push b e) = tl (events b @ [e])"
    by (simp add: EventBuffer_push_def Let_def)
  ultimately show ?thesis by simp
next
  case False
  with assms have lt: "length (events b) < nat (maxSize b)" by simp
  then have "\<not> int (length (events b @ [e])) > maxSize b" by simp
  moreover from lt have "Suc (length (events b)) - nat (maxSize b) = 0" by simp
  ultimately show ?thesis
    by (simp add: EventBuffer_push_def Let_def)
qed

lemma EventBuffer_push_maxSize: "maxSize (EventBuffer_push b e) = maxSize b"
  by (simp add: EventBuffer_push_def Let_def)

lemma EventBuffer_pushAll_events:
  "0 \<le> maxSize b \<Longrightarrow> length (events b) \<le> nat (maxSize b) \<Longrightarrow>
   events (EventBuffer_pushAll b es)
     = drop (length (events b @ es) - nat (maxSize b)) (events b @ es)
   \<and> maxSize (EventBuffer_pushAll b es) = maxSize b"
proof (induction es rule: rev_induct)
  case Nil
  then show ?case by (simp add: EventBuffer_pushAll_def)
next
  case (snoc e es)
  let ?b = "EventBuffer_pushAll b es"
  let ?k = "nat (maxSize b)"
  let ?all = "events b @ es"
  from snoc have ev: "events ?b = drop (length ?all - ?k) ?all"
    and mx: "maxSize ?b = maxSize b" by simp_all
  have len: "length (events ?b) \<le> ?k" unfolding ev by simp
  have step: "EventBuffer_pushAll b (es @ [e]) = EventBuffer_push ?b e"
    by (simp add: EventBuffer_pushAll_def)
  from snoc.prems(1) mx len
  have 1: "events (EventBuffer_push ?b e) = drop (Suc (length (events ?b)) - ?k) (events ?b @ [e])"
    using EventBuffer_push_events [of ?b e] by simp
  have "drop (Suc (length (events ?b)) - ?k) (events ?b @ [e])
        = drop (length (?all @ [e]) - ?k) (?all @ [e])"
  proof (cases "length ?all \<le> ?k")
    case True
    then have "events ?b = ?all" unfolding ev by simp
    then show ?thesis by simp
  next
    case False
    then have k: "?k < length ?all" by simp
    then have "length (events ?b) = ?k" unfolding ev by simp
    then have "Suc (length (events ?b)) - ?k = Suc 0" by simp
    then have "drop (Suc (length (events ?b)) - ?k) (events ?b @ [e])
               = drop (Suc 0) (drop (length ?all - ?k) ?all @ [e])"
      by (simp only: ev)
    also have "\<dots> = drop (Suc (length ?all) - ?k) (?all @ [e])"
      using k by (rule drop_window_snoc)
    finally show ?thesis by simp
  qed
  with 1 have "events (EventBuffer_push ?b e) = drop (length (?all @ [e]) - ?k) (?all @ [e])"
    by simp
  with step mx show ?case by (simp add: EventBuffer_push_maxSize)
qed

lemma EventBuffer_after_appends:
  assumes "0 \<le> k"
  shows "EventBuffer_length (EventBuffer_pushAll (EventBuffer_new k) es) = min (length es) (nat k)"
    and "EventBuffer_getAll (EventBuffer_pushAll (EventBuffer_new k) es) = drop (length es - nat k) es"
  using assms EventBuffer_pushAll_events [of "EventBuffer_new k" es]
  by (simp_all add: EventBuffer_new_def EventBuffer_length_def EventBuffer_getAll_def)

lemma EventBuffer_getRecent_positive:
  "0 < m \<Longrightarrow> m \<le> int (EventBuffer_length b) \<Longrightarrow>
   EventBuffer_getRecent b m = drop (EventBuffer_length b - nat m) (events b)"
  by (simp add: EventBuffer_getRecent_def EventBuffer_length_def slice_from_def clamp_index_def
      nat_diff_distrib)

lemma EventBuffer_getRecent_capacity:
  assumes "0 \<le> k" "nat k \<le> length es"
  shows "EventBuffer_getRecent (EventBuffer_pushAll (EventBuffer_new k) es) k = drop (length es - nat k) es"
proof (cases "k = 0")
  case True
  with assms EventBuffer_after_appends(2) [of k es] show ?thesis
    by (simp add: EventBuffer_getRecent_def EventBuffer_getAll_def slice_from_def clamp_index_def)
next
  case False
  let ?b = "EventBuffer_pushAll (EventBuffer_new k) es"
  from assms have l: "EventBuffer_length ?b = nat k"
    using EventBuffer_after_appends(1) [of k es] by simp
  from False assms l have "EventBuffer_getRecent ?b k = drop (EventBuffer_length ?b - nat k) (events ?b)"
    by (intro EventBuffer_getRecent_positive) simp_all
  with l assms EventBuffer_after_appends(2) [of k es] show ?thesis
    by (simp add: EventBuffer_getAll_def)
qed

text \<open>
  Claim C7 at \<open>m = 0\<close>.  With capacity 3 and the appends 1, 2, 3, 4 the buffer holds 2, 3, 4;
  \<open>getRecent(0)\<close> is \<open>slice(-0)\<close>, the whole buffer, where the last 0 events are none.  The
  lemmas above give what holds: the length is \<open>min n k\<close>, the buffer holds the last \<open>min n k\<close>
  appends, and \<open>getRecent(m)\<close> returns the last \<open>m\<close> of them for \<open>0 < m \<le> length\<close>.
\<close>

theorem EventBuffer_getRecent_zero:
  "EventBuffer_length ring3 = 3 \<and> EventBuffer_getAll ring3 = [2, 3, 4]
   \<and> EventBuffer_getRecent ring3 0 = [2, 3, 4]
   \<and> EventBuffer_getRecent ring3 2 = [3, 4]"
  by (simp add: ring3_def EventBuffer_pushAll_def EventBuffer_push_def EventBuffer_new_def
      EventBuffer_length_def EventBuffer_getAll_def EventBuffer_getRecent_def slice_from_def
      clamp_index_def Let_def)

section \<open>Properties of the event parsers\<close>










section \<open>Properties of the exit handler\<close>

lemma handleEvent_session_Result_terminal:
  "terminal (status (handleEvent_session n s (ResultEvent st res)))"
  by (simp add: handleEvent_session_def bufferEvent_def terminal_def Let_def)

text \<open>
  Claim C6, amended.  The exit handler always clears the process handle.  A status that is
  already DONE, ERROR or INTERRUPTED is kept, whoever set it, and so is the status a Result
  event has just set.  Otherwise the status becomes INTERRUPTED when the signal is SIGINT, else
  DONE when the code is 0, else ERROR with the message \<open>Process exited with code\<close> followed by
  the code (\<open>null\<close> for a missing code).
\<close>

theorem handleExit_contract:
  "process (handleExit s code signal) = None
   \<and> (terminal (status s) \<longrightarrow>
        status (handleExit s code signal) = status s \<and> error (handleExit s code signal) = error s)
   \<and> status (handleExit (handleEvent_session n s0 (ResultEvent st res)) code signal)
       = status (handleEvent_session n s0 (ResultEvent st res))
   \<and> (\<not> terminal (status s) \<longrightarrow>
        (signal = Some (js ''SIGINT'') \<longrightarrow> status (handleExit s code signal) = INTERRUPTED)
        \<and> (signal \<noteq> Some (js ''SIGINT'') \<and> code = Some 0 \<longrightarrow>
             status (handleExit s code signal) = DONE)
        \<and> (signal \<noteq> Some (js ''SIGINT'') \<and> code \<noteq> Some 0 \<longrightarrow>
             status (handleExit s code signal) = ERROR
             \<and> error (handleExit s code signal)
                 = Some (js ''Process exited with code '' @ show_code code)))"
proof -
  have t: "terminal (status (handleEvent_session n s0 (ResultEvent st res)))"
    by (rule handleEvent_session_Result_terminal)
  have pres: "\<And>x :: Session. terminal (status x) \<Longrightarrow> status (handleExit x code signal) = status x"
    by (auto simp: handleExit_def terminal_def Let_def)
  show ?thesis
    using pres [OF t]
    by (cases "status s") (auto simp: handleExit_def terminal_def Let_def)
qed

text \<open>The contract at the session of scenario A.\<close>

theorem handleExit_contract_witness:
  "\<not> terminal (status scenarioA_session)
   \<and> status (handleExit scenarioA_session (Some 1) None) = ERROR
   \<and> error (handleExit scenarioA_session (Some 1) None) = Some (js ''Process exited with code 1'')
   \<and> status (handleExit scenarioA_session None (Some (js ''SIGINT''))) = INTERRUPTED
   \<and> status (handleExit scenarioA_session (Some 0) None) = DONE
   \<and> process (handleExit scenarioA_session (Some 0) None) = None
   \<and> terminal (status (handleEvent_session 500 scenarioA_session
                          (ResultEvent (js ''success'') (Some (js ''World!'')))))
   \<and> status (handleExit (handleEvent_session 500 scenarioA_session
                            (ResultEvent (js ''success'') (Some (js ''World!'')))) (Some 1) None)
       = DONE"
  using handleExit_contract [of scenarioA_session "Some 1" None 500 scenarioA_session
      "js ''success''" "Some (js ''World!'')"]
    handleExit_contract [of scenarioA_session None "Some (js ''SIGINT'')"]
    handleExit_contract [of scenarioA_session "Some 0" None]
    handleExit_contract [of "handleEvent_session 500 scenarioA_session
        (ResultEvent (js ''success'') (Some (js ''World!'')))" "Some 1" None]
  by (simp add: scenarioA_session_def terminal_def handleEvent_session_def bufferEvent_def
      show_code_def show_int_def js_def digit_def Let_def)


text \<open>
  Claim C6 as stated fails: a session that was interrupted and has received no Result event
  keeps the status INTERRUPTED when its process then exits with code 0 and no signal, where
  the claim makes it DONE.
\<close>

theorem interrupted_status_survives_exit:
  "map_option eventBuffer (Map_get (sessions interruptedManager) (js ''temp_1000_aaaaaa'')) = Some []
   \<and> map_option status
        (Map_get (sessions (perform interruptedManager (Exit (js ''temp_1000_aaaaaa'') (Some 0) None)))
           (js ''temp_1000_aaaaaa''))
       = Some INTERRUPTED"
  by code_simp

section \<open>Properties of the approval timeout\<close>

lemma permissionTimeout_status:
  "status (fst (snd (permissionTimeout pm request session))) = status session"
  by (simp add: permissionTimeout_def)

lemma codex_approvalTimeout_status:
  "status (fst (codex_approvalTimeout session stdinAvailable)) = ACTIVE
   \<and> pendingQuestion (fst (codex_approvalTimeout session stdinAvailable)) = None"
  by (simp add: codex_approvalTimeout_def Let_def)

text \<open>
  Claim C1 at scenario B, in the Claude Code connector.  While the request is pending the
  session is AWAITING_INPUT.  When the timer fires, the agent is answered with a denial whose
  message is \<open>Permission request timed out\<close> and the pending question is cleared, but the
  status is still AWAITING_INPUT: the timer callback never sets it.  The timeout callback of
  the Codex connector sets it to ACTIVE.
\<close>

theorem permissionTimeout_scenarioB:
  "map_option status (Map_get (sessions scenarioB_waiting) scenarioB_id) = Some AWAITING_INPUT
   \<and> fst (timeoutFires scenarioB_waiting scenarioB_request scenarioB_id)
       = Some \<lparr>behavior = deny, message = Some (js ''Permission request timed out''),
               updatedInput = None\<rparr>
   \<and> map_option pendingQuestion
        (Map_get (sessions (snd (timeoutFires scenarioB_waiting scenarioB_request scenarioB_id)))
           scenarioB_id) = Some None
   \<and> map_option status
        (Map_get (sessions (snd (timeoutFires scenarioB_waiting scenarioB_request scenarioB_id)))
           scenarioB_id) = Some AWAITING_INPUT"
  by code_simp

section \<open>Properties of the approval lookup\<close>

lemma find_first: "P s \<Longrightarrow> \<forall>t\<in>set pre. \<not> P t \<Longrightarrow> find P (pre @ s # post) = Some s"
  by (induction pre) simp_all

lemma find_none: "\<forall>t\<in>set vs. \<not> P t \<Longrightarrow> find P vs = None"
  by (induction vs) simp_all

lemma latest_older:
  "\<forall>t\<in>set pre. live t \<longrightarrow> createdAt t < c \<Longrightarrow>
   acc = None \<or> (\<exists>l. acc = Some l \<and> createdAt l < c) \<Longrightarrow>
   foldl latest_step acc pre = None \<or> (\<exists>l. foldl latest_step acc pre = Some l \<and> createdAt l < c)"
proof (induction pre arbitrary: acc)
  case Nil
  then show ?case by simp
next
  case (Cons t pre)
  have "latest_step acc t = None \<or> (\<exists>l. latest_step acc t = Some l \<and> createdAt l < c)"
    using Cons.prems by (auto simp: latest_step_def live_def split: option.splits)
  moreover from Cons.prems have "\<forall>t\<in>set pre. live t \<longrightarrow> createdAt t < c" by simp
  ultimately show ?case using Cons.IH by simp
qed

lemma latest_kept:
  "\<forall>t\<in>set post. live t \<longrightarrow> createdAt t \<le> createdAt s \<Longrightarrow> foldl latest_step (Some s) post = Some s"
  by (induction post) (auto simp: latest_step_def live_def)

lemma latest_none: "\<forall>t\<in>set vs. \<not> live t \<Longrightarrow> foldl latest_step None vs = None"
  by (induction vs) (auto simp: latest_step_def live_def)

lemma latest_found:
  assumes "live s" "\<forall>t\<in>set pre. live t \<longrightarrow> createdAt t < createdAt s"
    "\<forall>t\<in>set post. live t \<longrightarrow> createdAt t \<le> createdAt s"
  shows "foldl latest_step None (pre @ s # post) = Some s"
proof -
  have "foldl latest_step None pre = None
        \<or> (\<exists>l. foldl latest_step None pre = Some l \<and> createdAt l < createdAt s)"
    using assms(2) by (intro latest_older) simp_all
  with assms(1) have "latest_step (foldl latest_step None pre) s = Some s"
    by (auto simp: latest_step_def live_def)
  with assms(3) show ?thesis by (simp add: latest_kept)
qed

lemma findSessionForPermission_miss:
  assumes "Map_get (sessions m) label = None"
  shows "findSessionForPermission m label =
           (case (if label = js ''__pending__'' then find temp_active (Map_values (sessions m))
                  else None) of
              Some session \<Rightarrow> Some session
            | None \<Rightarrow> foldl latest_step None (Map_values (sessions m)))"
proof -
  have "temp_active = (\<lambda>session. startsWith (sessionId session) (js ''temp_'') \<and> status session = ACTIVE)"
    by (simp add: fun_eq_iff temp_active_def)
  then show ?thesis
    unfolding findSessionForPermission_def using assms by simp
qed

text \<open>
  Claim C4, amended.  A label that is the id of a stored session resolves to that session.
  Otherwise, for the label \<open>__pending__\<close>, the result is the earliest inserted session whose id
  is a temp id and whose status is ACTIVE.  Otherwise, and also for \<open>__pending__\<close> when no
  such session exists, the result is none when no session is ACTIVE or AWAITING_INPUT, and else
  the session with the latest creation time among those, the earliest inserted one when
  several share that time.
\<close>

theorem findSessionForPermission_resolution:
  "(Map_get (sessions m) label = Some s \<longrightarrow> findSessionForPermission m label = Some s)
   \<and> (Map_get (sessions m) label = None \<and> label = js ''__pending__''
        \<and> Map_values (sessions m) = pre @ s # post
        \<and> temp_active s \<and> (\<forall>t\<in>set pre. \<not> temp_active t)
      \<longrightarrow> findSessionForPermission m label = Some s)
   \<and> (Map_get (sessions m) label = None
        \<and> (label \<noteq> js ''__pending__'' \<or> (\<forall>t\<in>set (Map_values (sessions m)). \<not> temp_active t))
      \<longrightarrow> ((\<forall>t\<in>set (Map_values (sessions m)). \<not> live t)
             \<longrightarrow> findSessionForPermission m label = None)
          \<and> (Map_values (sessions m) = pre @ s # post \<and> live s
               \<and> (\<forall>t\<in>set pre. live t \<longrightarrow> createdAt t < createdAt s)
               \<and> (\<forall>t\<in>set post. live t \<longrightarrow> createdAt t \<le> createdAt s)
             \<longrightarrow> findSessionForPermission m label = Some s))"
proof (intro conjI impI)
  assume "Map_get (sessions m) label = Some s"
  then show "findSessionForPermission m label = Some s"
    by (simp add: findSessionForPermission_def)
next
  assume a: "Map_get (sessions m) label = None \<and> label = js ''__pending__''
        \<and> Map_values (sessions m) = pre @ s # post
        \<and> temp_active s \<and> (\<forall>t\<in>set pre. \<not> temp_active t)"
  then have "find temp_active (Map_values (sessions m)) = Some s"
    by (simp add: find_first)
  moreover from a have "Map_get (sessions m) label = None" and "label = js ''__pending__''"
    by blast+
  ultimately show "findSessionForPermission m label = Some s"
    by (simp add: findSessionForPermission_miss)
next
  assume a: "Map_get (sessions m) label = None
        \<and> (label \<noteq> js ''__pending__'' \<or> (\<forall>t\<in>set (Map_values (sessions m)). \<not> temp_active t))"
  then have "Map_get (sessions m) label = None" by simp
  from findSessionForPermission_miss [OF this] a
  have f: "findSessionForPermission m label = foldl latest_step None (Map_values (sessions m))"
    using find_none [of "Map_values (sessions m)" temp_active] by auto
  {
    assume "\<forall>t\<in>set (Map_values (sessions m)). \<not> live t"
    then show "findSessionForPermission m label = None"
      unfolding f by (rule latest_none)
  }
  {
    assume "Map_values (sessions m) = pre @ s # post \<and> live s
               \<and> (\<forall>t\<in>set pre. live t \<longrightarrow> createdAt t < createdAt s)
               \<and> (\<forall>t\<in>set post. live t \<longrightarrow> createdAt t \<le> createdAt s)"
    then have v: "Map_values (sessions m) = pre @ s # post" and l: "live s"
      and o: "\<forall>t\<in>set pre. live t \<longrightarrow> createdAt t < createdAt s"
      and n: "\<forall>t\<in>set post. live t \<longrightarrow> createdAt t \<le> createdAt s"
      by blast+
    show "findSessionForPermission m label = Some s"
      unfolding f v using l o n by (rule latest_found)
  }
qed

lemma twoTemp_values: "Map_values (sessions twoTemp) = [twoTemp_first, twoTemp_second]"
  by code_simp

lemma twoTemp_facts:
  "Map_get (sessions twoTemp) (js ''__pending__'') = None"
  "Map_get (sessions twoTemp) (js ''gone'') = None"
  "Map_get (sessions twoTemp) (js ''temp_2000_bbbbbb'') = Some twoTemp_second"
  "temp_active twoTemp_first" "live twoTemp_first" "live twoTemp_second"
  "createdAt twoTemp_first < createdAt twoTemp_second"
  "js ''gone'' \<noteq> js ''__pending__''"
  by code_simp+

text \<open>The three rules at the store with two uninitialised sessions.\<close>

theorem findSessionForPermission_resolution_witness:
  "findSessionForPermission twoTemp (js ''temp_2000_bbbbbb'') = Some twoTemp_second
   \<and> findSessionForPermission twoTemp (js ''__pending__'') = Some twoTemp_first
   \<and> findSessionForPermission twoTemp (js ''gone'') = Some twoTemp_second
   \<and> findSessionForPermission (SessionManager_new 500 10 500) (js ''gone'') = None"
  using findSessionForPermission_resolution
      [of twoTemp "js ''temp_2000_bbbbbb''" twoTemp_second]
    findSessionForPermission_resolution
      [of twoTemp "js ''__pending__''" twoTemp_first "[]" "[twoTemp_second]"]
    findSessionForPermission_resolution
      [of twoTemp "js ''gone''" twoTemp_second "[twoTemp_first]" "[]"]
    findSessionForPermission_resolution [of "SessionManager_new 500 10 500" "js ''gone''"]
    twoTemp_values twoTemp_facts
  by (simp add: SessionManager_new_def Map_get_def Map_values_def)

text \<open>
  Claim C4 as stated fails: with two ACTIVE sessions on temp ids, \<open>__pending__\<close> resolves to the
  one inserted first, not to the most recently inserted one.
\<close>

theorem findSessionForPermission_earliest_temp:
  "map sessionId (Map_values (sessions twoTemp)) = [js ''temp_1000_aaaaaa'', js ''temp_2000_bbbbbb'']
   \<and> map status (Map_values (sessions twoTemp)) = [ACTIVE, ACTIVE]
   \<and> Map_get (sessions twoTemp) (js ''__pending__'') = None
   \<and> map_option sessionId (findSessionForPermission twoTemp (js ''__pending__''))
       = Some (js ''temp_1000_aaaaaa'')"
  by code_simp

section \<open>Follow-up to an unknown session\<close>

lemma createTrackedSession_fields:
  "sessionId (fst (createTrackedSession m sid now)) = sid"
  "status (fst (createTrackedSession m sid now)) = DONE"
  "process (fst (createTrackedSession m sid now)) = None"
  "permissionMode (fst (createTrackedSession m sid now)) = None"
  by (simp_all add: createTrackedSession_def Let_def)

lemma createTrackedSession_new:
  "Map_get (sessions m) sid = None \<Longrightarrow>
   snd (createTrackedSession m sid now)
     = m\<lparr>sessions := sessions m @ [(sid, fst (createTrackedSession m sid now))]\<rparr>"
  by (simp add: createTrackedSession_def Let_def Map_set_new)

lemma codex_createTrackedSession_fields:
  "sessionId (fst (codex_createTrackedSession m sid now)) = sid"
  "status (fst (codex_createTrackedSession m sid now)) = DONE"
  "process (fst (codex_createTrackedSession m sid now)) = None"
  by (simp_all add: codex_createTrackedSession_def Let_def)

lemma codex_createTrackedSession_new:
  "Map_get (codex_sessions m) sid = None \<Longrightarrow>
   snd (codex_createTrackedSession m sid now)
     = m\<lparr>codex_sessions := codex_sessions m @ [(sid, fst (codex_createTrackedSession m sid now))]\<rparr>"
  by (simp add: codex_createTrackedSession_def Let_def Map_set_new)

lemma sayToSession_unknown_full:
  assumes miss: "Map_get (sessions m) (say_sessionId params) = None"
    and full: "getActiveSessionCount m \<ge> maxSessions m"
  shows "sayToSession m params now child stdinAvailable
           = (Inl (MaxSessionsReached (maxSessions m)),
              m\<lparr>sessions := sessions m
                   @ [(say_sessionId params,
                       (fst (createTrackedSession m (say_sessionId params) now))
                         \<lparr>permissionMode := say_permissionMode params\<rparr>)]\<rparr>)"
proof -
  let ?sid = "say_sessionId params"
  define p where "p = fst (createTrackedSession m ?sid now)"
  define p2 where "p2 = p\<lparr>permissionMode := say_permissionMode params\<rparr>"
  have p: "sessionId p = ?sid" "status p = DONE" "process p = None" "permissionMode p = None"
    by (simp_all add: p_def createTrackedSession_fields)
  have p2: "sessionId p2 = ?sid" "status p2 = DONE" "process p2 = None"
    by (simp_all add: p2_def p)
  have same: "say_permissionMode params = None \<Longrightarrow> p2 = p"
    using p(4) by (simp add: p2_def)
  have ct: "createTrackedSession m ?sid now = (p, m\<lparr>sessions := sessions m @ [(?sid, p)]\<rparr>)"
    using createTrackedSession_new [OF miss, of now] by (simp add: p_def prod_eq_iff)
  have s2: "Map_replace (sessions m @ [(?sid, p)]) ?sid p2 = sessions m @ [(?sid, p2)]"
    using miss by (rule Map_replace_snoc)
  have cnt: "getActiveSessionCount (m\<lparr>sessions := sessions m @ [(?sid, p2)]\<rparr>) = getActiveSessionCount m"
    using p2(3) by (simp add: getActiveSessionCount_def Map_values_def)
  have res: "resumeSession (m\<lparr>sessions := sessions m @ [(?sid, p2)]\<rparr>) p2 child
             = Inl (MaxSessionsReached (maxSessions m))"
    using full cnt by (simp add: resumeSession_def)
  have "sayToSession m params now child stdinAvailable
          = (Inl (MaxSessionsReached (maxSessions m)), m\<lparr>sessions := sessions m @ [(?sid, p2)]\<rparr>)"
  proof (cases "say_permissionMode params = None")
    case True
    with same have e: "p2 = p" by simp
    from True show ?thesis
      unfolding sayToSession_def miss ct
      using p s2 [unfolded e] res [unfolded e] by (simp add: e)
  next
    case False
    then show ?thesis
      unfolding sayToSession_def miss ct
      using p p2(1) s2 res by (simp add: p2_def [symmetric])
  qed
  then show ?thesis by (simp add: p2_def p_def)
qed

lemma codex_sayToSession_unknown_full:
  assumes miss: "Map_get (codex_sessions m) sid = None"
    and full: "countActiveSessions (codex_sessions m) \<ge> codex_maxSessions m"
  shows "codex_sayToSession m sid now child
           = (Inl (MaxSessionsReached (codex_maxSessions m)),
              snd (codex_createTrackedSession m sid now))"
proof -
  define p where "p = fst (codex_createTrackedSession m sid now)"
  have p: "sessionId p = sid" "status p = DONE" "process p = None"
    by (simp_all add: p_def codex_createTrackedSession_fields)
  have ct: "codex_createTrackedSession m sid now
            = (p, m\<lparr>codex_sessions := codex_sessions m @ [(sid, p)]\<rparr>)"
    using codex_createTrackedSession_new [OF miss, of now] by (simp add: p_def prod_eq_iff)
  have cnt: "countActiveSessions (codex_sessions m @ [(sid, p)]) = countActiveSessions (codex_sessions m)"
    using p(3) by (simp add: countActiveSessions_def Map_values_def)
  have res: "codex_resumeSession (m\<lparr>codex_sessions := codex_sessions m @ [(sid, p)]\<rparr>) p child
             = Inl (MaxSessionsReached (codex_maxSessions m))"
    using full cnt by (simp add: codex_resumeSession_def)
  show ?thesis
    unfolding codex_sayToSession_def miss ct using p res by simp
qed

text \<open>
  Claim C10.  For an id that the store does not hold, \<open>createTrackedSession\<close> appends to the
  store, under that id, a placeholder session with status DONE and no process.  When moreover
  the number of sessions with a process has reached \<open>max_sessions\<close>: a status call on the id
  fails as unknown beforehand; the follow-up fails with the capacity error; and the store it
  leaves is the former store with the placeholder appended under the id (in the Claude Code
  connector the placeholder has taken the permission mode of the request), so that the store
  holds a session under that id with status DONE and no process and a status call on the id
  succeeds.  This holds in both connectors.
\<close>

theorem sayToSession_unknown_keeps_placeholder:
  "(Map_get (sessions m) (say_sessionId params) = None \<and> getActiveSessionCount m \<ge> maxSessions m
    \<longrightarrow> getSessionStatus m (say_sessionId params) n = Inl (UnknownSession (say_sessionId params))
      \<and> fst (sayToSession m params now child stdinAvailable)
          = Inl (MaxSessionsReached (maxSessions m))
      \<and> (\<exists>s. Map_get (sessions (snd (sayToSession m params now child stdinAvailable)))
                 (say_sessionId params) = Some s
               \<and> status s = DONE \<and> process s = None)
      \<and> (\<exists>v. getSessionStatus (snd (sayToSession m params now child stdinAvailable))
                 (say_sessionId params) n = Inr v
               \<and> v_sessionId v = say_sessionId params \<and> v_status v = DONE)
      \<and> sessions (snd (createTrackedSession m (say_sessionId params) now))
          = sessions m
            @ [(say_sessionId params, fst (createTrackedSession m (say_sessionId params) now))]
      \<and> status (fst (createTrackedSession m (say_sessionId params) now)) = DONE
      \<and> process (fst (createTrackedSession m (say_sessionId params) now)) = None
      \<and> sessions (snd (sayToSession m params now child stdinAvailable))
          = sessions m
            @ [(say_sessionId params,
                (fst (createTrackedSession m (say_sessionId params) now))
                  \<lparr>permissionMode := say_permissionMode params\<rparr>)])
   \<and> (Map_get (codex_sessions cm) sid = None
        \<and> countActiveSessions (codex_sessions cm) \<ge> codex_maxSessions cm
    \<longrightarrow> codex_getSessionStatus cm sid = Inl (UnknownSession sid)
      \<and> fst (codex_sayToSession cm sid now child) = Inl (MaxSessionsReached (codex_maxSessions cm))
      \<and> (\<exists>s. Map_get (codex_sessions (snd (codex_sayToSession cm sid now child))) sid = Some s
               \<and> status s = DONE \<and> process s = None)
      \<and> (\<exists>v. codex_getSessionStatus (snd (codex_sayToSession cm sid now child)) sid = Inr v
               \<and> cv_sessionId v = sid \<and> cv_status v = DONE)
      \<and> codex_sessions (snd (codex_createTrackedSession cm sid now))
          = codex_sessions cm @ [(sid, fst (codex_createTrackedSession cm sid now))]
      \<and> status (fst (codex_createTrackedSession cm sid now)) = DONE
      \<and> process (fst (codex_createTrackedSession cm sid now)) = None
      \<and> codex_sessions (snd (codex_sayToSession cm sid now child))
          = codex_sessions cm @ [(sid, fst (codex_createTrackedSession cm sid now))])"
proof (intro conjI impI)
  assume a: "Map_get (sessions m) (say_sessionId params) = None
             \<and> getActiveSessionCount m \<ge> maxSessions m"
  let ?sid = "say_sessionId params"
  let ?p = "fst (createTrackedSession m ?sid now)"
  define s where "s = ?p\<lparr>permissionMode := say_permissionMode params\<rparr>"
  from a have r: "sayToSession m params now child stdinAvailable
              = (Inl (MaxSessionsReached (maxSessions m)), m\<lparr>sessions := sessions m @ [(?sid, s)]\<rparr>)"
    using sayToSession_unknown_full [of m params now child stdinAvailable] by (simp add: s_def)
  have s: "sessionId s = ?sid" "status s = DONE" "process s = None"
    by (simp_all add: s_def createTrackedSession_fields)
  from a have g: "Map_get (sessions m @ [(?sid, s)]) ?sid = Some s"
    by (simp add: Map_get_snoc)
  from a show "getSessionStatus m ?sid n = Inl (UnknownSession ?sid)"
    by (simp add: getSessionStatus_def)
  show "fst (sayToSession m params now child stdinAvailable) = Inl (MaxSessionsReached (maxSessions m))"
    by (simp add: r)
  from g s show "\<exists>s. Map_get (sessions (snd (sayToSession m params now child stdinAvailable))) ?sid
                   = Some s \<and> status s = DONE \<and> process s = None"
    by (simp add: r)
  from g s show "\<exists>v. getSessionStatus (snd (sayToSession m params now child stdinAvailable)) ?sid n
                   = Inr v \<and> v_sessionId v = ?sid \<and> v_status v = DONE"
    by (simp add: r getSessionStatus_def)
  from a show "sessions (snd (createTrackedSession m ?sid now)) = sessions m @ [(?sid, ?p)]"
    by (simp add: createTrackedSession_new)
  show "status ?p = DONE" by (rule createTrackedSession_fields)
  show "process ?p = None" by (rule createTrackedSession_fields)
  show "sessions (snd (sayToSession m params now child stdinAvailable))
          = sessions m @ [(?sid, ?p\<lparr>permissionMode := say_permissionMode params\<rparr>)]"
    by (simp add: r s_def)
next
  assume a: "Map_get (codex_sessions cm) sid = None
             \<and> countActiveSessions (codex_sessions cm) \<ge> codex_maxSessions cm"
  let ?p = "fst (codex_createTrackedSession cm sid now)"
  from a have c: "snd (codex_createTrackedSession cm sid now)
                  = cm\<lparr>codex_sessions := codex_sessions cm @ [(sid, ?p)]\<rparr>"
    by (simp add: codex_createTrackedSession_new)
  from a have r: "codex_sayToSession cm sid now child
              = (Inl (MaxSessionsReached (codex_maxSessions cm)),
                 cm\<lparr>codex_sessions := codex_sessions cm @ [(sid, ?p)]\<rparr>)"
    using codex_sayToSession_unknown_full [of cm sid now child] c by simp
  have s: "sessionId ?p = sid" "status ?p = DONE" "process ?p = None"
    by (rule codex_createTrackedSession_fields)+
  from a have g: "Map_get (codex_sessions cm @ [(sid, ?p)]) sid = Some ?p"
    by (simp add: Map_get_snoc)
  from a show "codex_getSessionStatus cm sid = Inl (UnknownSession sid)"
    by (simp add: codex_getSessionStatus_def)
  show "fst (codex_sayToSession cm sid now child) = Inl (MaxSessionsReached (codex_maxSessions cm))"
    by (simp add: r)
  from g s show "\<exists>s. Map_get (codex_sessions (snd (codex_sayToSession cm sid now child))) sid = Some s
                   \<and> status s = DONE \<and> process s = None"
    by (simp add: r)
  from g s show "\<exists>v. codex_getSessionStatus (snd (codex_sayToSession cm sid now child)) sid = Inr v
                   \<and> cv_sessionId v = sid \<and> cv_status v = DONE"
    by (simp add: r codex_getSessionStatus_def)
  from c show "codex_sessions (snd (codex_createTrackedSession cm sid now))
                 = codex_sessions cm @ [(sid, ?p)]"
    by simp
  show "status ?p = DONE" by (rule s)
  show "process ?p = None" by (rule s)
  show "codex_sessions (snd (codex_sayToSession cm sid now child)) = codex_sessions cm @ [(sid, ?p)]"
    by (simp add: r)
qed

lemma fullManager_facts:
  "Map_get (sessions fullManager) (say_sessionId adoptParams) = None"
  "getActiveSessionCount fullManager \<ge> maxSessions fullManager"
  "maxSessions fullManager = 1"
  "Map_get (codex_sessions fullCodexManager) (js ''user-created-session'') = None"
  "countActiveSessions (codex_sessions fullCodexManager) \<ge> codex_maxSessions fullCodexManager"
  "codex_maxSessions fullCodexManager = 1"
  "map fst (sessions fullManager) = [js ''temp_1000_aaaaaa'']"
  "map fst (codex_sessions fullCodexManager) = [js ''thread-1'']"
  "say_sessionId adoptParams = js ''user-created-session''"
  by code_simp+

text \<open>The claim at a manager whose only slot is taken.\<close>

theorem sayToSession_unknown_keeps_placeholder_witness:
  "Map_get (sessions fullManager) (say_sessionId adoptParams) = None
   \<and> getActiveSessionCount fullManager \<ge> maxSessions fullManager
   \<and> fst (sayToSession fullManager adoptParams 2000 2 True) = Inl (MaxSessionsReached 1)
   \<and> (\<exists>v. getSessionStatus (snd (sayToSession fullManager adoptParams 2000 2 True))
              (say_sessionId adoptParams) 50 = Inr v \<and> v_status v = DONE)
   \<and> map fst (sessions (snd (sayToSession fullManager adoptParams 2000 2 True)))
       = [js ''temp_1000_aaaaaa'', js ''user-created-session'']
   \<and> Map_get (codex_sessions fullCodexManager) (js ''user-created-session'') = None
   \<and> countActiveSessions (codex_sessions fullCodexManager) \<ge> codex_maxSessions fullCodexManager
   \<and> fst (codex_sayToSession fullCodexManager (js ''user-created-session'') 2000 2)
       = Inl (MaxSessionsReached 1)
   \<and> (\<exists>v. codex_getSessionStatus
              (snd (codex_sayToSession fullCodexManager (js ''user-created-session'') 2000 2))
              (js ''user-created-session'') = Inr v \<and> cv_status v = DONE)
   \<and> map fst (codex_sessions
                 (snd (codex_sayToSession fullCodexManager (js ''user-created-session'') 2000 2)))
       = [js ''thread-1'', js ''user-created-session'']"
  using sayToSession_unknown_keeps_placeholder
      [of fullManager adoptParams 50 2000 2 True fullCodexManager "js ''user-created-session''"]
    fullManager_facts
  by auto


section \<open>What each action does to the sessions of the store\<close>

lemma all_sessions_get: "all_sessions P m \<Longrightarrow> Map_get (sessions m) k = Some s \<Longrightarrow> P s"
  by (auto simp: all_sessions_def dest: Map_get_in_values)

lemma all_sessions_set:
  "all_sessions P m \<Longrightarrow> P v \<Longrightarrow> all_sessions P (m\<lparr>sessions := Map_set (sessions m) k v\<rparr>)"
  using Map_values_Map_set [of "sessions m" k v] by (auto simp: all_sessions_def)

lemma all_sessions_replace:
  "all_sessions P m \<Longrightarrow> P v \<Longrightarrow> all_sessions P (m\<lparr>sessions := Map_replace (sessions m) k v\<rparr>)"
  using Map_values_Map_replace [of "sessions m" k v] by (auto simp: all_sessions_def)

lemma all_sessions_rekey:
  "all_sessions P m \<Longrightarrow> P v \<Longrightarrow>
   all_sessions P (m\<lparr>sessions := Map_set (Map_delete (sessions m) k) k' v\<rparr>)"
  using Map_values_Map_set [of "Map_delete (sessions m) k" k' v]
    Map_values_Map_delete [of "sessions m" k]
  by (auto simp: all_sessions_def)

lemma all_sessions_pm:
  "all_sessions P (m\<lparr>permissionManager := pm\<rparr>) = all_sessions P m"
  by (simp add: all_sessions_def)

lemma find_in_set: "find Q xs = Some x \<Longrightarrow> x \<in> set xs"
  by (induction xs) (auto split: if_splits)

lemma latest_in_set:
  "foldl latest_step acc xs = Some x \<Longrightarrow> x \<in> set xs \<or> acc = Some x"
proof (induction xs arbitrary: acc)
  case Nil
  then show ?case by simp
next
  case (Cons y ys)
  from Cons.IH [OF Cons.prems [simplified]]
  show ?case by (auto simp: latest_step_def split: if_splits option.splits)
qed

lemma findSessionForPermission_stored:
  "findSessionForPermission m label = Some s \<Longrightarrow> s \<in> set (Map_values (sessions m))"
  unfolding findSessionForPermission_def
  by (auto split: option.splits if_splits dest: Map_get_in_values find_in_set latest_in_set)

lemma resumeSession_Inr:
  "resumeSession m s child = Inr m' \<Longrightarrow>
   m' = m\<lparr>sessions := Map_replace (sessions m) (sessionId s) (s\<lparr>process := Some child, status := ACTIVE\<rparr>)\<rparr>"
  by (simp add: resumeSession_def split: if_splits)

lemma resumeSession_all:
  "all_sessions P m \<Longrightarrow> P (s\<lparr>process := Some child, status := ACTIVE\<rparr>) \<Longrightarrow>
   all_sessions P (case resumeSession m s child of Inl e \<Rightarrow> m | Inr m' \<Rightarrow> m')"
  by (auto split: sum.splits dest!: resumeSession_Inr intro: all_sessions_replace)

lemma snd_resume:
  "snd (case resumeSession m s child of Inl e \<Rightarrow> (Inl e, m) | Inr m' \<Rightarrow> (f m', m'))
   = (case resumeSession m s child of Inl e \<Rightarrow> m | Inr m' \<Rightarrow> m')"
  by (simp split: sum.splits)

lemma startSession_all:
  assumes "all_sessions P m"
    and "\<And>t. P \<lparr>sessionId = t, status = ACTIVE, process = Some child, createdAt = now,
                 pendingQuestion = None, result = None, error = None,
                 permissionMode = mode, eventBuffer = [], toolUseEvents = []\<rparr>"
  shows "all_sessions P (perform m (Start mode now rnd child))"
  using assms by (simp add: startSession_def Let_def all_sessions_set)

lemma sayToSession_all:
  assumes all: "all_sessions P m"
    and tracked: "\<And>sid. P (fst (createTrackedSession m sid now))"
    and mode: "\<And>s md. P s \<Longrightarrow> P (s\<lparr>permissionMode := md\<rparr>)"
    and resume: "\<And>s. P s \<Longrightarrow> P (s\<lparr>process := Some child, status := ACTIVE\<rparr>)"
  shows "all_sessions P (perform m (Say params now child stdinAvailable))"
proof -
  let ?sm = "case Map_get (sessions m) (say_sessionId params) of
               Some s \<Rightarrow> (s, m)
             | None \<Rightarrow> createTrackedSession m (say_sessionId params) now"
  let ?s = "fst ?sm" and ?m1 = "snd ?sm"
  let ?s2 = "if say_permissionMode params \<noteq> None \<and> say_permissionMode params \<noteq> permissionMode ?s
             then ?s\<lparr>permissionMode := say_permissionMode params\<rparr> else ?s"
  let ?m2 = "?m1\<lparr>sessions := Map_replace (sessions ?m1) (sessionId ?s2) ?s2\<rparr>"
  have s: "P ?s"
    using all tracked by (auto split: option.splits dest: all_sessions_get)
  have "all_sessions P (snd (createTrackedSession m (say_sessionId params) now))"
    using all tracked [of "say_sessionId params"]
    by (simp add: createTrackedSession_def Let_def all_sessions_set)
  with all have m1: "all_sessions P ?m1" by (simp split: option.splits)
  from s mode have s2: "P ?s2" by simp
  with m1 have m2: "all_sessions P ?m2" by (rule all_sessions_replace)
  have m3: "all_sessions P (case resumeSession ?m2 ?s2 child of Inl e \<Rightarrow> ?m2 | Inr m' \<Rightarrow> m')"
    using m2 resume [OF s2] by (rule resumeSession_all)
  have "snd (sayToSession m params now child stdinAvailable)
          = (if process ?s \<noteq> None \<and> status ?s = ACTIVE then ?m1
             else (case resumeSession ?m2 ?s2 child of Inl e \<Rightarrow> ?m2 | Inr m' \<Rightarrow> m'))"
    unfolding sayToSession_def by (simp add: Let_def split_beta snd_resume)
  with m1 m3 show ?thesis by simp
qed

lemma sayToSession_afterExit_all:
  assumes all: "all_sessions P m"
    and mode: "\<And>s md. P s \<Longrightarrow> P (s\<lparr>process := None, permissionMode := md\<rparr>)"
    and resume: "\<And>s. P s \<Longrightarrow> P (s\<lparr>process := Some child, status := ACTIVE\<rparr>)"
  shows "all_sessions P (perform m (SayAfterExit sid params child))"
proof (cases "Map_get (sessions m) sid")
  case None
  with all show ?thesis by simp
next
  case (Some s)
  let ?s2 = "s\<lparr>process := None, permissionMode := say_permissionMode params\<rparr>"
  let ?m2 = "m\<lparr>sessions := Map_replace (sessions m) (sessionId ?s2) ?s2\<rparr>"
  from all Some have "P s" by (rule all_sessions_get)
  then have s2: "P ?s2" by (rule mode)
  with all have m2: "all_sessions P ?m2" by (rule all_sessions_replace)
  have "all_sessions P (case resumeSession ?m2 ?s2 child of Inl e \<Rightarrow> ?m2 | Inr m' \<Rightarrow> m')"
    using m2 resume [OF s2] by (rule resumeSession_all)
  moreover have "snd (sayToSession_afterExit m s params child)
                 = (case resumeSession ?m2 ?s2 child of Inl e \<Rightarrow> ?m2 | Inr m' \<Rightarrow> m')"
    unfolding sayToSession_afterExit_def by (simp add: Let_def split: sum.splits)
  ultimately show ?thesis using Some by simp
qed

lemma respondToQuestion_all:
  assumes all: "all_sessions P m"
    and answered: "\<And>s. P s \<Longrightarrow> P (s\<lparr>pendingQuestion := None, status := ACTIVE\<rparr>)"
  shows "all_sessions P (perform m (Respond sid qid answers))"
proof (cases "respondToQuestion m sid qid answers")
  case (Inl e)
  with all show ?thesis by simp
next
  case (Inr r)
  then obtain s pm where s: "Map_get (sessions m) sid = Some s"
    and r: "fst r = m\<lparr>sessions := Map_replace (sessions m) sid (s\<lparr>pendingQuestion := None, status := ACTIVE\<rparr>),
                      permissionManager := pm\<rparr>"
    by (auto simp: respondToQuestion_def resolveQuestion_def Let_def
        split: option.splits if_splits)
  from all s have "P s" by (rule all_sessions_get)
  then have "P (s\<lparr>pendingQuestion := None, status := ACTIVE\<rparr>)" by (rule answered)
  with all have "all_sessions P (m\<lparr>sessions := Map_replace (sessions m) sid
                                   (s\<lparr>pendingQuestion := None, status := ACTIVE\<rparr>)\<rparr>)"
    by (rule all_sessions_replace)
  with Inr r show ?thesis by (simp add: all_sessions_def)
qed

lemma interruptSession_all:
  assumes all: "all_sessions P m"
    and interrupted: "\<And>s. P s \<Longrightarrow> process s \<noteq> None \<Longrightarrow> P (s\<lparr>status := INTERRUPTED\<rparr>)"
  shows "all_sessions P (perform m (Interrupt sid))"
proof (cases "interruptSession m sid")
  case (Inl e)
  with all show ?thesis by simp
next
  case (Inr r)
  then obtain s where s: "Map_get (sessions m) sid = Some s" and p: "process s \<noteq> None"
    and r: "fst r = m\<lparr>sessions := Map_replace (sessions m) sid (s\<lparr>status := INTERRUPTED\<rparr>)\<rparr>"
    by (auto simp: interruptSession_def Let_def split: option.splits)
  from all s have "P s" by (rule all_sessions_get)
  with p have "P (s\<lparr>status := INTERRUPTED\<rparr>)" by (intro interrupted)
  with all have "all_sessions P (m\<lparr>sessions := Map_replace (sessions m) sid (s\<lparr>status := INTERRUPTED\<rparr>)\<rparr>)"
    by (rule all_sessions_replace)
  with Inr r show ?thesis by simp
qed

lemma handleEvent_all:
  assumes all: "all_sessions P m"
    and handled: "\<And>s. P s \<Longrightarrow> P (handleEvent_session (eventBufferSize m) s event)"
  shows "all_sessions P (perform m (Event sid event))"
proof (cases "Map_get (sessions m) sid")
  case None
  with all show ?thesis by (simp add: handleEvent_def)
next
  case (Some s)
  from all Some have "P s" by (rule all_sessions_get)
  then have "P (handleEvent_session (eventBufferSize m) s event)" by (rule handled)
  with all Some show ?thesis
    by (simp add: handleEvent_def Let_def all_sessions_replace all_sessions_rekey)
qed

lemma exitHandler_all:
  assumes all: "all_sessions P m"
    and exited: "\<And>s. P s \<Longrightarrow> P (handleExit s code signal)"
  shows "all_sessions P (perform m (Exit sid code signal))"
proof (cases "Map_get (sessions m) sid")
  case None
  with all show ?thesis by (simp add: exitHandler_def)
next
  case (Some s)
  from all Some have "P s" by (rule all_sessions_get)
  then have "P (handleExit s code signal)" by (rule exited)
  with all Some show ?thesis by (simp add: exitHandler_def all_sessions_replace)
qed

lemma permissionCallback_all:
  assumes all: "all_sessions P m"
    and asked: "\<And>s q. P s \<Longrightarrow> P (s\<lparr>pendingQuestion := Some q, status := AWAITING_INPUT\<rparr>)"
  shows "all_sessions P (perform m (Approval request))"
proof (cases "findSessionForPermission m (req_sessionId request)")
  case None
  with all show ?thesis by (simp add: permissionCallback_def)
next
  case (Some s)
  then have "s \<in> set (Map_values (sessions m))" by (rule findSessionForPermission_stored)
  with all have "P s" by (simp add: all_sessions_def)
  then have "P (snd (handlePermissionRequest (permissionManager m) request s))"
    by (simp add: handlePermissionRequest_def Let_def asked)
  with all have "all_sessions P (m\<lparr>sessions := Map_replace (sessions m) (sessionId s)
                      (snd (handlePermissionRequest (permissionManager m) request s))\<rparr>)"
    by (rule all_sessions_replace)
  with Some show ?thesis
    by (simp add: permissionCallback_def split_beta all_sessions_def)
qed

lemma timeoutFires_all:
  assumes all: "all_sessions P m"
    and timed_out: "\<And>s. P s \<Longrightarrow> P (s\<lparr>pendingQuestion := None\<rparr>)"
  shows "all_sessions P (perform m (Timeout request sid))"
proof (cases "Map_get (sessions m) sid")
  case None
  with all show ?thesis by (simp add: timeoutFires_def)
next
  case (Some s)
  from all Some have "P s" by (rule all_sessions_get)
  then have "P (s\<lparr>pendingQuestion := None\<rparr>)" by (rule timed_out)
  with all have "all_sessions P (m\<lparr>sessions := Map_replace (sessions m) sid (s\<lparr>pendingQuestion := None\<rparr>)\<rparr>)"
    by (rule all_sessions_replace)
  with all Some show ?thesis
    by (simp add: timeoutFires_def permissionTimeout_def all_sessions_def)
qed


section \<open>Properties of the status and the pending question\<close>

lemma handleStreamEvent_fields:
  "status (handleStreamEvent s e) = status s"
  "pendingQuestion (handleStreamEvent s e) = pendingQuestion s"
  "process (handleStreamEvent s e) = process s"
  by (simp_all add: handleStreamEvent_def Let_def split: ParsedEvent.splits option.splits)

lemma handleEvent_session_fields:
  "pendingQuestion (handleEvent_session n s e) = pendingQuestion s"
  "process (handleEvent_session n s e) = process s"
  "status (handleEvent_session n s e) = status s \<or> terminal (status (handleEvent_session n s e))"
  "(\<forall>st res. e \<noteq> ResultEvent st res) \<longrightarrow> status (handleEvent_session n s e) = status s"
  by (cases e; simp add: handleEvent_session_def bufferEvent_def handleStreamEvent_fields
      terminal_def Let_def)+

lemma handleExit_fields:
  "pendingQuestion (handleExit s code signal) = pendingQuestion s"
  "process (handleExit s code signal) = None"
  "terminal (status (handleExit s code signal))"
  by (cases "status s"; simp add: handleExit_def terminal_def Let_def)+

lemma awaiting_handleEvent_session:
  "awaiting_has_question s \<Longrightarrow> awaiting_has_question (handleEvent_session n s e)"
  using handleEvent_session_fields(1) [of n s e] handleEvent_session_fields(3) [of n s e]
  by (auto simp: awaiting_has_question_def terminal_def)

lemma awaiting_handleExit:
  "awaiting_has_question s \<Longrightarrow> awaiting_has_question (handleExit s code signal)"
  using handleExit_fields(3) [of s code signal]
  by (auto simp: awaiting_has_question_def terminal_def)

lemma awaiting_has_question_step:
  assumes "all_sessions awaiting_has_question m" "\<not> is_timeout a"
  shows "all_sessions awaiting_has_question (perform m a)"
proof (cases a)
  case (Start mode now rnd child)
  with assms(1) show ?thesis
    unfolding Start by (intro startSession_all) (simp_all add: awaiting_has_question_def)
next
  case (Say params now child stdinAvailable)
  with assms(1) show ?thesis
    unfolding Say
    by (intro sayToSession_all)
      (simp_all add: awaiting_has_question_def createTrackedSession_def Let_def)
next
  case (SayAfterExit sid params child)
  with assms(1) show ?thesis
    unfolding SayAfterExit
    by (intro sayToSession_afterExit_all) (simp_all add: awaiting_has_question_def)
next
  case (Respond sid qid answers)
  with assms(1) show ?thesis
    unfolding Respond by (intro respondToQuestion_all) (simp_all add: awaiting_has_question_def)
next
  case (Interrupt sid)
  with assms(1) show ?thesis
    unfolding Interrupt by (intro interruptSession_all) (simp_all add: awaiting_has_question_def)
next
  case (Event sid event)
  from assms(1) show ?thesis
    unfolding Event by (intro handleEvent_all awaiting_handleEvent_session)
next
  case (Exit sid code signal)
  from assms(1) show ?thesis
    unfolding Exit by (intro exitHandler_all awaiting_handleExit)
next
  case (Approval request)
  with assms(1) show ?thesis
    unfolding Approval by (intro permissionCallback_all) (simp_all add: awaiting_has_question_def)
next
  case (Timeout request sid)
  with assms(2) show ?thesis by simp
qed

text \<open>
  Claim C2, amended.  In the Claude Code connector, that every session whose status is
  AWAITING_INPUT has a pending question holds in the initial store, and every tool operation,
  event-handler run, exit-handler run and approval arrival keeps it: it holds of every session
  after the step when it held of every session before.  Hence it holds in every store reached
  from the initial one as long as no approval timer has fired.  Nothing is claimed once a timer
  has fired, which leaves the status AWAITING_INPUT without a question (claim C1).  The
  converse is not claimed either: the exit handler, a Result event, an interrupt and a resume
  change the status and leave the pending question in place.
\<close>

theorem awaiting_has_question_invariant:
  "all_sessions awaiting_has_question (SessionManager_new t k b)
   \<and> (all_sessions awaiting_has_question m \<and> \<not> is_timeout a
        \<longrightarrow> all_sessions awaiting_has_question (perform m a))
   \<and> ((\<forall>a\<in>set acts. \<not> is_timeout a)
        \<longrightarrow> all_sessions awaiting_has_question (performAll (SessionManager_new t k b) acts))"
proof (intro conjI impI)
  show init: "all_sessions awaiting_has_question (SessionManager_new t k b)"
    by (simp add: all_sessions_def SessionManager_new_def Map_values_def)
  show "all_sessions awaiting_has_question (perform m a)"
    if "all_sessions awaiting_has_question m \<and> \<not> is_timeout a"
    using that by (simp add: awaiting_has_question_step)
  show "all_sessions awaiting_has_question (performAll (SessionManager_new t k b) acts)"
    if "\<forall>a\<in>set acts. \<not> is_timeout a"
    using that
  proof (induction acts rule: rev_induct)
    case Nil
    from init show ?case by (simp add: performAll_def)
  next
    case (snoc a acts)
    then have "all_sessions awaiting_has_question (performAll (SessionManager_new t k b) acts)"
      and "\<not> is_timeout a" by simp_all
    then have "all_sessions awaiting_has_question
                 (perform (performAll (SessionManager_new t k b) acts) a)"
      by (rule awaiting_has_question_step)
    then show ?case by (simp add: performAll_def)
  qed
qed

text \<open>The invariant along the actions of a session from its start to its exit.\<close>

theorem awaiting_has_question_invariant_witness:
  "filter is_timeout scenarioC_actions = []
   \<and> all_sessions awaiting_has_question (performAll (SessionManager_new 500 10 500) scenarioC_actions)
   \<and> all_sessions awaiting_has_question scenarioB_waiting
   \<and> \<not> is_timeout (Exit scenarioB_id (Some 1) None)
   \<and> all_sessions awaiting_has_question (perform scenarioB_waiting (Exit scenarioB_id (Some 1) None))"
proof -
  have 1: "\<forall>a\<in>set scenarioC_actions. \<not> is_timeout a"
    by (simp add: scenarioC_actions_def)
  have 2: "all_sessions awaiting_has_question scenarioB_waiting"
    by code_simp
  have 3: "\<not> is_timeout (Exit scenarioB_id (Some 1) None)" by simp
  have 4: "filter is_timeout scenarioC_actions = []"
    by (simp add: scenarioC_actions_def)
  show ?thesis
    using awaiting_has_question_invariant
        [of 500 10 500 scenarioB_waiting "Exit scenarioB_id (Some 1) None" scenarioC_actions]
      1 2 3 4
    by simp
qed

text \<open>
  Claim C2 as stated fails: when the process exits with code 1 while a question is pending, the
  status becomes ERROR and the question stays.
\<close>

theorem pending_question_survives_exit:
  "map_option status
     (Map_get (sessions (perform scenarioB_waiting (Exit scenarioB_id (Some 1) None))) scenarioB_id)
     = Some ERROR
   \<and> map_option (map_option questionId \<circ> pendingQuestion)
       (Map_get (sessions (perform scenarioB_waiting (Exit scenarioB_id (Some 1) None))) scenarioB_id)
     = Some (Some (js ''req_timeout''))"
  by code_simp


section \<open>Properties of the status and the process handle\<close>

lemma ended_handleEvent_session:
  "ended_without_process s \<Longrightarrow> \<forall>st res. e \<noteq> ResultEvent st res \<Longrightarrow>
   ended_without_process (handleEvent_session n s e)"
  using handleEvent_session_fields(2) [of n s e] handleEvent_session_fields(4) [of e n s]
  by (simp add: ended_without_process_def)

lemma ended_handleExit: "ended_without_process (handleExit s code signal)"
  using handleExit_fields(2) [of s code signal] by (simp add: ended_without_process_def)

lemma ended_without_process_step:
  assumes "all_sessions ended_without_process m" "\<not> ends_turn a"
  shows "all_sessions ended_without_process (perform m a)"
proof (cases a)
  case (Start mode now rnd child)
  with assms(1) show ?thesis
    unfolding Start
    by (intro startSession_all) (simp_all add: ended_without_process_def terminal_def)
next
  case (Say params now child stdinAvailable)
  with assms(1) show ?thesis
    unfolding Say
    by (intro sayToSession_all)
      (simp_all add: ended_without_process_def terminal_def createTrackedSession_def Let_def)
next
  case (SayAfterExit sid params child)
  with assms(1) show ?thesis
    unfolding SayAfterExit
    by (intro sayToSession_afterExit_all) (simp_all add: ended_without_process_def terminal_def)
next
  case (Respond sid qid answers)
  with assms(1) show ?thesis
    unfolding Respond
    by (intro respondToQuestion_all) (simp_all add: ended_without_process_def terminal_def)
next
  case (Interrupt sid)
  with assms(2) show ?thesis by simp
next
  case (Event sid event)
  with assms(2) have "\<forall>st res. event \<noteq> ResultEvent st res" by auto
  with assms(1) show ?thesis
    unfolding Event by (intro handleEvent_all ended_handleEvent_session)
next
  case (Exit sid code signal)
  from assms(1) show ?thesis
    unfolding Exit
    by (intro exitHandler_all ended_handleExit)
next
  case (Approval request)
  with assms(1) show ?thesis
    unfolding Approval
    by (intro permissionCallback_all) (simp_all add: ended_without_process_def terminal_def)
next
  case (Timeout request sid)
  with assms(1) show ?thesis
    unfolding Timeout
    by (intro timeoutFires_all) (simp_all add: ended_without_process_def)
qed

text \<open>
  Claim C3, amended.  In the Claude Code connector, that every session with status DONE, ERROR
  or INTERRUPTED has no process handle holds in the initial store and is kept by every action
  other than an interrupt and a Result event, which set such a status while the handle is
  still there; and after every run of the exit handler the session has no process handle and
  its status is DONE, ERROR or INTERRUPTED.
\<close>

theorem ended_without_process_invariant:
  "all_sessions ended_without_process (SessionManager_new t k b)
   \<and> (all_sessions ended_without_process m \<and> \<not> ends_turn a
        \<longrightarrow> all_sessions ended_without_process (perform m a))
   \<and> (Map_get (sessions m) sid = Some s
        \<longrightarrow> (\<exists>s'. Map_get (sessions (perform m (Exit sid code signal))) sid = Some s'
                 \<and> process s' = None \<and> terminal (status s')))"
proof (intro conjI impI)
  show "all_sessions ended_without_process (SessionManager_new t k b)"
    by (simp add: all_sessions_def SessionManager_new_def Map_values_def)
  show "all_sessions ended_without_process (perform m a)"
    if "all_sessions ended_without_process m \<and> \<not> ends_turn a"
    using that by (simp add: ended_without_process_step)
  show "\<exists>s'. Map_get (sessions (perform m (Exit sid code signal))) sid = Some s'
              \<and> process s' = None \<and> terminal (status s')"
    if "Map_get (sessions m) sid = Some s"
    using that by (simp add: exitHandler_def Map_get_Map_replace handleExit_fields)
qed

lemma exitedManager_facts:
  "all_sessions ended_without_process exitedManager"
  "Map_get (sessions exitedManager) (js ''temp_1000_aaaaaa'') = Some exitedSession"
  by code_simp+

text \<open>
  The invariant at a session whose process has exited, a follow-up after it, and a second run
  of the exit handler.
\<close>

theorem ended_without_process_invariant_witness:
  "\<not> ends_turn (Say adoptParams 2000 2 True)
   \<and> all_sessions ended_without_process exitedManager
   \<and> all_sessions ended_without_process (perform exitedManager (Say adoptParams 2000 2 True))
   \<and> Map_get (sessions exitedManager) (js ''temp_1000_aaaaaa'') = Some exitedSession
   \<and> (\<exists>s'. Map_get (sessions (perform exitedManager
                                    (Exit (js ''temp_1000_aaaaaa'') (Some 1) None)))
                (js ''temp_1000_aaaaaa'') = Some s'
             \<and> process s' = None \<and> terminal (status s'))"
  using ended_without_process_invariant
      [of 500 10 500 exitedManager "Say adoptParams 2000 2 True" "js ''temp_1000_aaaaaa''"
        exitedSession "Some 1" None]
    exitedManager_facts
  by simp

text \<open>
  Claim C3 as stated fails: right after an interrupt the status is INTERRUPTED and the process
  handle is still set.
\<close>

theorem interrupted_with_live_process:
  "map_option status (Map_get (sessions interruptedManager) (js ''temp_1000_aaaaaa''))
     = Some INTERRUPTED
   \<and> map_option process (Map_get (sessions interruptedManager) (js ''temp_1000_aaaaaa''))
     = Some (Some 1)"
  by code_simp

end
